theory Spec2Isabelle
  imports Complex_Main "HOL-Library.AList"
begin

section \<open>Conventions of the embedding\<close>

text \<open>
  The Python sources compute with unbounded integers and with binary floating-point
  numbers. Integers are modelled by \<open>int\<close>. Floating-point quantities (megawatts, battery
  percentages, coordinates) are modelled by \<open>real\<close>, that is, with exact arithmetic:
  rounding of the machine operations is not represented, except where a result is
  truncated to an integer, where the rounded value is a parameter. Dictionaries are
  association lists in insertion order. Values obtained from the random number generator,
  from the clock and from the external traffic simulator are parameters of the functions.
\<close>

text \<open>
  A Python loop \<open>for x in xs: ...\<close> whose body mutates the object \<open>x\<close> and some
  accumulators: the body maps the accumulators and the element to the new element and the
  new accumulators.
\<close>

fun for_each :: "('s \<Rightarrow> 'a \<Rightarrow> 'a \<times> 's) \<Rightarrow> 'a list \<Rightarrow> 's \<Rightarrow> 'a list \<times> 's" where
  "for_each f [] s = ([], s)"
| "for_each f (x # xs) s =
     (case f s x of (x', s') \<Rightarrow>
        (case for_each f xs s' of (xs', s'') \<Rightarrow> (x' # xs', s'')))"

text \<open>Python's \<open>int(x)\<close> on a float: truncation towards zero.\<close>

definition py_int :: "real \<Rightarrow> int" where
  "py_int x = (if 0 \<le> x then \<lfloor>x\<rfloor> else \<lceil>x\<rceil>)"

text \<open>
  What is assumed of the double-precision value \<open>v\<close> of an expression whose exact value
  is \<open>exact\<close>: the two differ by at most \<open>1e-9\<close>. For \<open>(lat - 40.700) * 1000\<close> with a
  latitude between 40.7 and 40.8 the difference is below \<open>3e-12\<close>: the literal is the
  double \<open>40.7 + 2.84e-15\<close>, the subtraction is exact and the product is rounded once.
\<close>

definition double_result :: "real \<Rightarrow> real \<Rightarrow> bool" where
  "double_result exact v = (\<bar>v - exact\<bar> \<le> 1 / 10 ^ 9)"

section \<open>Traffic-light phase controller (app.py, ManhattanTrafficController)\<close>

text \<open>
  One entry of \<open>self.lights\<close>. The position is the pair \<open>gps = (lon, lat)\<close>. The
  \<open>state_history\<close> list holds signal strings read back from the simulator and takes no
  part in the phase logic; it is left out.
\<close>

datatype pattern = AVENUE | STREET

record light =
  pattern :: pattern
  phase :: int
  timer :: int
  green_time :: int
  yellow_time :: int
  all_red_time :: int
  position :: "real \<times> real"

text \<open>
  \<open>initialize_manhattan_lights\<close>, the loop over \<open>enumerate(manhattan_lights)\<close>. The
  argument \<open>i\<close> is the index in discovery order, \<open>gps\<close> the position and \<open>r\<close> the value
  returned by \<open>random.randint(0, 30)\<close>, which is drawn for streets only. The offset of
  an avenue is \<open>int((gps[1] - 40.700) * 1000) % 60\<close>: the product is a double that is
  truncated, so its rounding can decide the integer. \<open>scaled lat\<close> is the double that the
  interpreter computes for \<open>(lat - 40.700) * 1000\<close> at the latitude \<open>lat\<close>.
\<close>

definition is_avenue :: "nat \<Rightarrow> bool" where
  "is_avenue i = (i mod 3 = 0)"

definition avenue_offset :: "(real \<Rightarrow> real) \<Rightarrow> real \<times> real \<Rightarrow> int" where
  "avenue_offset scaled gps = py_int (scaled (snd gps)) mod 60"

definition init_light :: "(real \<Rightarrow> real) \<Rightarrow> nat \<Rightarrow> real \<times> real \<Rightarrow> int \<Rightarrow> light" where
  "init_light scaled i gps r =
     \<lparr>pattern = (if is_avenue i then AVENUE else STREET),
      phase = 0,
      timer = (if is_avenue i then avenue_offset scaled gps else r),
      green_time = (if is_avenue i then 35 else 25),
      yellow_time = 3,
      all_red_time = 2,
      position = gps\<rparr>"

text \<open>
  The documented contract of \<open>random.randint(a, b)\<close>: an integer \<open>N\<close> with
  \<open>a \<le> N \<le> b\<close>, both ends included.
\<close>

definition randint_result :: "int \<Rightarrow> int \<Rightarrow> int \<Rightarrow> bool" where
  "randint_result a b n = (a \<le> n \<and> n \<le> b)"

text \<open>
  The whole loop. \<open>randint i\<close> is the draw made in iteration \<open>i\<close>. The call
  \<open>traci.trafficlight.setRedYellowGreenState\<close> of an iteration may raise; the entry of
  that iteration is already stored by then, the loop is left through the outer
  \<open>except\<close> and the function returns \<open>False\<close>. \<open>traci_ok i\<close> says that the simulator
  calls of iteration \<open>i\<close> succeed.
\<close>

fun init_loop :: "(real \<Rightarrow> real) \<Rightarrow> (nat \<Rightarrow> int) \<Rightarrow> (nat \<Rightarrow> bool) \<Rightarrow> nat
    \<Rightarrow> (string \<times> real \<times> real) list
    \<Rightarrow> (string \<times> light) list \<Rightarrow> (string \<times> light) list \<times> bool" where
  "init_loop scaled randint traci_ok i [] lights = (lights, True)"
| "init_loop scaled randint traci_ok i ((tl_id, gps) # rest) lights =
     (let lights' = AList.update tl_id (init_light scaled i gps (randint i)) lights
      in if traci_ok i then init_loop scaled randint traci_ok (Suc i) rest lights'
         else (lights', False))"

definition initialize_manhattan_lights ::
  "(real \<Rightarrow> real) \<Rightarrow> (nat \<Rightarrow> int) \<Rightarrow> (nat \<Rightarrow> bool) \<Rightarrow> (string \<times> real \<times> real) list
    \<Rightarrow> (string \<times> light) list \<times> bool" where
  "initialize_manhattan_lights scaled randint traci_ok manhattan_lights =
     init_loop scaled randint traci_ok 0 manhattan_lights []"

text \<open>The duration selected by the \<open>if/elif/else\<close> chain of \<open>update_cycle\<close>.\<close>

definition duration :: "light \<Rightarrow> int" where
  "duration l =
     (if phase l = 0 \<or> phase l = 3 then green_time l
      else if phase l = 1 \<or> phase l = 4 then yellow_time l
      else all_red_time l)"

text \<open>
  The body of the loop of \<open>update_cycle\<close> for one light: the timer is incremented first,
  then compared with the duration of the phase the light is in. The simulator calls that
  follow a phase change come after the two assignments, so an exception they raise
  (swallowed by \<open>except: continue\<close>) leaves phase and timer as computed here.
\<close>

definition update_light :: "light \<Rightarrow> light" where
  "update_light l =
     (let l1 = l\<lparr>timer := timer l + 1\<rparr>
      in if timer l1 \<ge> duration l1
         then l1\<lparr>phase := (phase l1 + 1) mod 6, timer := 0\<rparr>
         else l1)"

text \<open>
  \<open>update_cycle\<close> on the dictionary of lights, and \<open>n\<close> successive calls on one
  light. The counter \<open>cycle_time\<close> and the green, yellow and red tallies, which are read
  from the simulator's signal strings, do not feed back into the lights and are left out.
\<close>

definition update_cycle :: "(string \<times> light) list \<Rightarrow> (string \<times> light) list" where
  "update_cycle lights = map (\<lambda>(tl_id, l). (tl_id, update_light l)) lights"

definition ticks :: "nat \<Rightarrow> light \<Rightarrow> light" where
  "ticks n l = (update_light ^^ n) l"

text \<open>The length of a full cycle of a light, from its configured durations.\<close>

definition cycle_length :: "light \<Rightarrow> int" where
  "cycle_length l = 2 * (green_time l + yellow_time l + all_red_time l)"

section \<open>Power network (manhattan_power_network.py)\<close>

datatype gen_type =
  Gas_turbine | Combined_cycle | Steam_turbine | Solar_pv | Wind | Battery | Diesel | Fuel_cell

text \<open>
  A generator dictionary with its key \<open>gname\<close> in \<open>self.generators\<close>. \<open>must_run\<close> is
  \<open>gen.get('must_run')\<close>, false when the key is absent. The three battery fields are
  read for batteries only.
\<close>

record generator =
  gname :: string
  gtype :: gen_type
  capacity_mw :: real
  min_mw :: real
  cost_per_mwh :: real
  must_run :: bool
  current_output :: real
  current_soc :: real
  energy_capacity_mwh :: real
  efficiency :: real

record line =
  lname :: string
  voltage :: real
  line_capacity_mw :: real
  current_flow :: real

record transformer =
  xname :: string
  rating_mva :: real

datatype severity = Critical | Warning

datatype violation_type = Line_overload | High_loading | Transformer_overload

text \<open>
  An entry of \<open>thermal_violations\<close>; \<open>measured\<close> is its \<open>utilization\<close> or
  \<open>loading\<close> value.
\<close>

record violation =
  element :: string
  vtype :: violation_type
  measured :: real
  severity :: severity

record network =
  generators :: "generator list"
  lines :: "line list"
  transformers :: "transformer list"
  total_load :: real
  total_generation :: real
  thermal_violations :: "violation list"
  voltage_violations :: "violation list"

subsection \<open>Economic dispatch\<close>

definition is_renewable :: "generator \<Rightarrow> bool" where
  "is_renewable g = (gtype g = Solar_pv \<or> gtype g = Wind)"

definition is_thermal :: "generator \<Rightarrow> bool" where
  "is_thermal g = (gtype g = Gas_turbine \<or> gtype g = Combined_cycle \<or> gtype g = Steam_turbine)"

text \<open>
  The bodies of the three loops of \<open>_economic_dispatch\<close>. The accumulators are the pair
  \<open>(remaining_load, total_generation)\<close>; \<open>hour\<close> is \<open>datetime.now().hour\<close>.
\<close>

definition renewable_step :: "int \<Rightarrow> real \<times> real \<Rightarrow> generator \<Rightarrow> generator \<times> real \<times> real" where
  "renewable_step hour acc g =
     (case acc of (remaining_load, total_gen) \<Rightarrow>
        if is_renewable g then
          (let g' = (if gtype g = Solar_pv then
                       (if 6 \<le> hour \<and> hour \<le> 18
                        then g\<lparr>current_output :=
                               capacity_mw g * sin ((of_int hour - 6) * pi / 12) * 0.85\<rparr>
                        else g\<lparr>current_output := 0\<rparr>)
                     else g)
           in (g', remaining_load - current_output g', total_gen + current_output g'))
        else (g, remaining_load, total_gen))"

definition thermal_step :: "real \<times> real \<Rightarrow> generator \<Rightarrow> generator \<times> real \<times> real" where
  "thermal_step acc g =
     (case acc of (remaining_load, total_gen) \<Rightarrow>
        if is_thermal g then
          (if remaining_load > 0 then
             (let output = min (capacity_mw g) (max (min_mw g) remaining_load)
              in (g\<lparr>current_output := output\<rparr>, remaining_load - output, total_gen + output))
           else (g\<lparr>current_output := (if must_run g then min_mw g else 0)\<rparr>,
                 remaining_load, total_gen))
        else (g, remaining_load, total_gen))"

definition battery_step :: "real \<times> real \<Rightarrow> generator \<Rightarrow> generator \<times> real \<times> real" where
  "battery_step acc g =
     (case acc of (remaining_load, total_gen) \<Rightarrow>
        if gtype g = Battery then
          (if remaining_load > 0 \<and> current_soc g > 0.2 then
             (let discharge = min (capacity_mw g)
                                (min remaining_load (current_soc g * energy_capacity_mwh g))
              in (g\<lparr>current_output := discharge\<rparr>, remaining_load - discharge,
                  total_gen + discharge))
           else if remaining_load < - 50 \<and> current_soc g < 0.9 then
             (let charge = min (capacity_mw g)
                             (min (- remaining_load) ((1 - current_soc g) * energy_capacity_mwh g))
              in (g\<lparr>current_output := - charge\<rparr>, remaining_load + charge, total_gen))
           else (g, remaining_load, total_gen))
        else (g, remaining_load, total_gen))"

text \<open>
  \<open>sorted(self.generators.items(), key=...)\<close> is a stable sort, as \<open>sort_key\<close> is. The
  sorted list holds references to the generator dictionaries, so the first two loops
  mutate the generators themselves; the third loop walks the dictionary in its own order.
  \<open>in_dict_order\<close> reads the mutated generators back in that order, by key.
\<close>

definition sorted_gens :: "generator list \<Rightarrow> generator list" where
  "sorted_gens gens = sort_key cost_per_mwh gens"

definition in_dict_order :: "generator list \<Rightarrow> generator list \<Rightarrow> generator list" where
  "in_dict_order gens mutated =
     map (\<lambda>g. case find (\<lambda>h. gname h = gname g) mutated of Some h \<Rightarrow> h | None \<Rightarrow> g) gens"

text \<open>The generators after the first two loops, in merit order, with the accumulators.\<close>

definition merit_order_passes :: "int \<Rightarrow> real \<Rightarrow> generator list \<Rightarrow> generator list \<times> real \<times> real" where
  "merit_order_passes hour load gens =
     (case for_each (renewable_step hour) (sorted_gens gens) (load, 0) of (s1, acc1) \<Rightarrow>
        for_each thermal_step s1 acc1)"

definition economic_dispatch :: "int \<Rightarrow> network \<Rightarrow> network" where
  "economic_dispatch hour net =
     (case merit_order_passes hour (total_load net) (generators net) of (s2, acc2) \<Rightarrow>
        (case for_each battery_step (in_dict_order (generators net) s2) acc2 of
           (gens3, remaining_load, total_gen) \<Rightarrow>
             net\<lparr>generators := gens3, total_generation := total_gen\<rparr>))"

subsection \<open>Line flows and violations\<close>

definition line_flow :: "real \<Rightarrow> line \<Rightarrow> real" where
  "line_flow load l =
     (let base_flow = load * 0.001 * line_capacity_mw l
      in if voltage l = 138 then min (base_flow * 1.5) (line_capacity_mw l * 0.8)
         else if voltage l = 27 then min (base_flow * 1.2) (line_capacity_mw l * 0.7)
         else if voltage l = 13.8 then min (base_flow * 1.0) (line_capacity_mw l * 0.6)
         else min (base_flow * 0.8) (line_capacity_mw l * 0.5))"

definition calculate_line_flows :: "network \<Rightarrow> network" where
  "calculate_line_flows net =
     net\<lparr>lines := map (\<lambda>l. l\<lparr>current_flow := line_flow (total_load net) l\<rparr>) (lines net)\<rparr>"

definition utilization :: "line \<Rightarrow> real" where
  "utilization l =
     (if line_capacity_mw l > 0 then (current_flow l / line_capacity_mw l) * 100 else 0)"

text \<open>What the first loop of \<open>_check_violations\<close> appends for one line.\<close>

definition line_violations :: "line \<Rightarrow> violation list" where
  "line_violations l =
     (let u = utilization l
      in if u > 100 then
           [\<lparr>element = lname l, vtype = Line_overload, measured = u,
             severity = (if u > 120 then Critical else Warning)\<rparr>]
         else if u > 90 then
           [\<lparr>element = lname l, vtype = High_loading, measured = u, severity = Warning\<rparr>]
         else [])"

text \<open>
  What the second loop appends for one transformer; \<open>loading\<close> is the value returned by
  \<open>np.random.uniform(60, 95)\<close>.
\<close>

definition transformer_violations :: "real \<Rightarrow> transformer \<Rightarrow> violation list" where
  "transformer_violations loading x =
     (if loading > 100 then
        [\<lparr>element = xname x, vtype = Transformer_overload, measured = loading,
          severity = Critical\<rparr>]
      else [])"

text \<open>The contract of \<open>np.random.uniform(60, 95)\<close>: a value between the two bounds.\<close>

definition uniform_result :: "real \<Rightarrow> real \<Rightarrow> real \<Rightarrow> bool" where
  "uniform_result lo hi v = (lo \<le> v \<and> v \<le> hi)"

text \<open>\<open>uniform i\<close> is the draw made for the \<open>i\<close>-th transformer of the dictionary.\<close>

definition check_violations :: "(nat \<Rightarrow> real) \<Rightarrow> network \<Rightarrow> network" where
  "check_violations uniform net =
     net\<lparr>voltage_violations := [],
         thermal_violations :=
           concat (map line_violations (lines net)) @
           concat (map (\<lambda>(i, x). transformer_violations (uniform i) x)
                     (zip [0 ..< length (transformers net)] (transformers net)))\<rparr>"

subsection \<open>Battery state of charge\<close>

datatype py_error = ZeroDivisionError

definition time_step_hours :: real where
  "time_step_hours = 0.25"

text \<open>
  The body of the loop of \<open>_update_battery_soc\<close>. Python raises on a division by zero;
  the branches that divide return the error in that case.
\<close>

definition update_soc :: "generator \<Rightarrow> py_error + generator" where
  "update_soc g =
     (if gtype g = Battery then
        (if current_output g > 0 then
           (if efficiency g = 0 \<or> energy_capacity_mwh g = 0 then Inl ZeroDivisionError
            else
              (let energy_discharged = current_output g * time_step_hours / efficiency g;
                   soc = current_soc g - energy_discharged / energy_capacity_mwh g
               in Inr (g\<lparr>current_soc := max 0 (min 1 soc)\<rparr>)))
         else if current_output g < 0 then
           (if energy_capacity_mwh g = 0 then Inl ZeroDivisionError
            else
              (let energy_charged = - current_output g * time_step_hours * efficiency g;
                   soc = current_soc g + energy_charged / energy_capacity_mwh g
               in Inr (g\<lparr>current_soc := max 0 (min 1 soc)\<rparr>)))
         else Inr (g\<lparr>current_soc := max 0 (min 1 (current_soc g))\<rparr>))
      else Inr g)"

text \<open>
  The loop stops at the first generator whose update raises; the generators before it
  stay mutated, that one and the ones after it are untouched.
\<close>

fun update_battery_soc_loop :: "generator list \<Rightarrow> generator list \<times> py_error option" where
  "update_battery_soc_loop [] = ([], None)"
| "update_battery_soc_loop (g # gs) =
     (case update_soc g of
        Inl e \<Rightarrow> (g # gs, Some e)
      | Inr g' \<Rightarrow> (case update_battery_soc_loop gs of (gs', r) \<Rightarrow> (g' # gs', r)))"

definition update_battery_soc :: "network \<Rightarrow> network \<times> py_error option" where
  "update_battery_soc net =
     (case update_battery_soc_loop (generators net) of
        (gens, r) \<Rightarrow> (net\<lparr>generators := gens\<rparr>, r))"

subsection \<open>One simulation pass and the status object\<close>

text \<open>
  The last four calls of \<open>simulate_power_flow\<close>, on a network whose \<open>total_load\<close> has
  been summed from the loads. The second component is the exception that leaves the
  function, if any.
\<close>

definition simulate_power_flow :: "int \<Rightarrow> (nat \<Rightarrow> real) \<Rightarrow> network \<Rightarrow> network \<times> py_error option" where
  "simulate_power_flow hour uniform net =
     update_battery_soc
       (check_violations uniform (calculate_line_flows (economic_dispatch hour net)))"

text \<open>The \<open>violations\<close> entry of \<open>get_status\<close>: thermal and voltage counts.\<close>

definition status_violations :: "network \<Rightarrow> nat \<times> nat" where
  "status_violations net = (length (thermal_violations net), length (voltage_violations net))"

section \<open>Electric-vehicle charging (app.py, ManhattanEVNetwork)\<close>

text \<open>
  A vehicle dictionary of the snapshot built by \<open>get_manhattan_vehicles\<close> (\<open>vx\<close> is
  its key \<open>x\<close>, the longitude, and \<open>vy\<close> its key \<open>y\<close>, the latitude), a charging
  station and an entry of \<open>self.ev_vehicles\<close>.
\<close>

record vehicle =
  vid :: string
  vx :: real
  vy :: real
  speed :: real
  is_ev :: bool
  v_charging :: bool

record station =
  sid :: string
  lat :: real
  lon :: real
  capacity :: int
  vehicles_charging :: "string list"

record ev_data =
  battery :: real
  charging :: bool
  target_station :: "string option"

text \<open>
  What one call of \<open>process_ev_charging\<close> takes from outside: Python's \<open>hash\<close> of a
  vehicle id, the value of \<open>random.uniform(20, 80)\<close> drawn when the vehicle is first
  seen, the value of \<open>random.random()\<close> drawn for the vehicle (it is consulted only when the
  battery is below 50) and the id of the station returned by \<open>route_ev_to_station\<close>,
  whose result depends on the simulator's routing.
\<close>

record env =
  py_hash :: "string \<Rightarrow> int"
  uniform_20_80 :: "string \<Rightarrow> real"
  random_draw :: "string \<Rightarrow> real"
  routed :: "string \<Rightarrow> string option"

record ev_network =
  stations :: "station list"
  charging_vehicles :: "(string \<times> string list) list"
  ev_vehicles :: "(string \<times> ev_data) list"
  ev_share_percent :: int
  ev_charging_bias_percent :: int

text \<open>The accumulators of the loop over the snapshot.\<close>

record ev_acc =
  acc_ev_vehicles :: "(string \<times> ev_data) list"
  acc_charging_vehicles :: "(string \<times> string list) list"
  total_evs :: nat
  charging_count :: nat

definition capture_radius :: "int \<Rightarrow> real" where
  "capture_radius bias = 0.002 + (of_int bias / 100) * 0.006"

definition classify_ev :: "env \<Rightarrow> int \<Rightarrow> string \<Rightarrow> bool" where
  "classify_ev e share v = (py_hash e v mod 100 < share)"

definition needs_charging :: "env \<Rightarrow> int \<Rightarrow> string \<Rightarrow> ev_data \<Rightarrow> bool" where
  "needs_charging e bias v d =
     (battery d < 30 \<or> (battery d < 50 \<and> random_draw e v < of_int bias / 100))"

definition occupants :: "(string \<times> string list) list \<Rightarrow> string \<Rightarrow> string list" where
  "occupants cv s = (case map_of cv s of Some l \<Rightarrow> l | None \<Rightarrow> [])"

text \<open>The metering block: the five assignments made once the vehicle is admitted.\<close>

definition meter :: "ev_data \<Rightarrow> ev_data" where
  "meter d =
     (let d1 = d\<lparr>charging := True, battery := min 100 (battery d + 0.5)\<rparr>
      in if battery d1 \<ge> 95 then d1\<lparr>charging := False, target_station := None\<rparr> else d1)"

text \<open>
  The test \<open>lat_diff < capture_radius and lon_diff < capture_radius\<close>, and the statement
  \<open>if station['id'] not in self.charging_vehicles: self.charging_vehicles[station['id']] = []\<close>.
\<close>

definition at_station :: "real \<Rightarrow> vehicle \<Rightarrow> station \<Rightarrow> bool" where
  "at_station r v st = (\<bar>vy v - lat st\<bar> < r \<and> \<bar>vx v - lon st\<bar> < r)"

definition ensure_entry :: "string \<Rightarrow> (string \<times> string list) list \<Rightarrow> (string \<times> string list) list" where
  "ensure_entry s cv = (if map_of cv s = None then AList.update s [] cv else cv)"

text \<open>
  The loop \<open>for station in self.stations\<close> for one vehicle, with its \<open>break\<close>. The
  result is the vehicle's state, the occupancy dictionary and whether the vehicle was
  appended to a station's list.
\<close>

fun scan_stations :: "real \<Rightarrow> vehicle \<Rightarrow> ev_data \<Rightarrow> (string \<times> string list) list \<Rightarrow> station list
    \<Rightarrow> ev_data \<times> (string \<times> string list) list \<times> bool" where
  "scan_stations r v d cv [] = (d, cv, False)"
| "scan_stations r v d cv (st # sts) =
     (if at_station r v st then
        (let cv1 = ensure_entry (sid st) cv
         in if int (length (occupants cv1 (sid st))) < capacity st then
              (if speed v < 2.0 then
                 (meter d, AList.update (sid st) (occupants cv1 (sid st) @ [vid v]) cv1, True)
               else scan_stations r v d cv1 sts)
            else scan_stations r v d cv1 sts)
      else scan_stations r v d cv sts)"

text \<open>
  The pieces of the loop body: the state stored for a vehicle seen for the first time;
  the lazy creation \<open>if vid not in self.ev_vehicles: self.ev_vehicles[vid] = {...}\<close>; the
  read \<open>ev_data = self.ev_vehicles[vid]\<close>, whose key is present after the creation; and
  the routing request, which only sets \<open>target_station\<close>.
\<close>

definition fresh_state :: "env \<Rightarrow> string \<Rightarrow> ev_data" where
  "fresh_state e k = \<lparr>battery = uniform_20_80 e k, charging = False, target_station = None\<rparr>"

definition observe :: "env \<Rightarrow> string \<Rightarrow> (string \<times> ev_data) list \<Rightarrow> (string \<times> ev_data) list" where
  "observe e k evs = (if map_of evs k = None then AList.update k (fresh_state e k) evs else evs)"

definition lookup_state :: "env \<Rightarrow> (string \<times> ev_data) list \<Rightarrow> string \<Rightarrow> ev_data" where
  "lookup_state e evs k = (case map_of evs k of Some d \<Rightarrow> d | None \<Rightarrow> fresh_state e k)"

definition request_route :: "env \<Rightarrow> int \<Rightarrow> string \<Rightarrow> ev_data \<Rightarrow> ev_data" where
  "request_route e bias k d =
     (if needs_charging e bias k d \<and> \<not> charging d
      then (case routed e k of Some s \<Rightarrow> d\<lparr>target_station := Some s\<rparr> | None \<Rightarrow> d)
      else d)"

text \<open>The body of the loop over the snapshot, for one vehicle.\<close>

definition process_vehicle :: "env \<Rightarrow> int \<Rightarrow> int \<Rightarrow> station list \<Rightarrow> ev_acc \<Rightarrow> vehicle \<Rightarrow> vehicle \<times> ev_acc" where
  "process_vehicle e share bias sts a v =
     (let v1 = v\<lparr>is_ev := classify_ev e share (vid v)\<rparr>
      in if \<not> classify_ev e share (vid v) then (v1, a)
         else
           (let evs1 = observe e (vid v) (acc_ev_vehicles a);
                d1 = request_route e bias (vid v) (lookup_state e evs1 (vid v))
            in case scan_stations (capture_radius bias) v1 d1 (acc_charging_vehicles a) sts of
                 (d2, cv, metered) \<Rightarrow>
                   ((if metered then v1\<lparr>v_charging := charging d2\<rparr> else v1),
                    a\<lparr>acc_ev_vehicles := AList.update (vid v) d2 evs1,
                      acc_charging_vehicles := cv,
                      total_evs := Suc (total_evs a),
                      charging_count := (if metered then Suc (charging_count a)
                                         else charging_count a)\<rparr>)))"

text \<open>
  \<open>process_ev_charging\<close>: the occupancy dictionary is reset, the two percentages are
  clamped to \<open>[0, 100]\<close>, the snapshot is walked and the stations' lists are replaced. The
  session bookkeeping (\<open>charging_sessions\<close>, elapsed time and delivered energy) writes to
  that dictionary only, which \<open>create_manhattan_grid_stations\<close> fills with an entry for
  every station, and is left out. The result is the updated coordinator, the
  updated snapshot and the two counters.
\<close>

definition clamp_percent :: "int \<Rightarrow> int" where
  "clamp_percent p = max 0 (min 100 p)"

definition process_ev_charging :: "env \<Rightarrow> ev_network \<Rightarrow> vehicle list
    \<Rightarrow> ev_network \<times> vehicle list \<times> nat \<times> nat" where
  "process_ev_charging e net vehicles =
     (let share = clamp_percent (ev_share_percent net);
          bias = clamp_percent (ev_charging_bias_percent net);
          a0 = \<lparr>acc_ev_vehicles = ev_vehicles net, acc_charging_vehicles = [],
                total_evs = 0, charging_count = 0\<rparr>
      in case for_each (process_vehicle e share bias (stations net)) vehicles a0 of
           (vehicles', a) \<Rightarrow>
             (net\<lparr>stations := map (\<lambda>st. st\<lparr>vehicles_charging :=
                                              occupants (acc_charging_vehicles a) (sid st)\<rparr>)
                                  (stations net),
                  charging_vehicles := acc_charging_vehicles a,
                  ev_vehicles := acc_ev_vehicles a\<rparr>,
              vehicles', total_evs a, charging_count a))"

text \<open>The coordinator after a sequence of snapshots, one call per snapshot.\<close>

fun run_ticks :: "env \<Rightarrow> ev_network \<Rightarrow> vehicle list list \<Rightarrow> ev_network" where
  "run_ticks e net [] = net"
| "run_ticks e net (vs # rest) = run_ticks e (fst (process_ev_charging e net vs)) rest"

text \<open>The ids of the vehicles with a tracked state, and a tracked vehicle's state.\<close>

definition tracked :: "ev_network \<Rightarrow> string set" where
  "tracked net = fst ` set (ev_vehicles net)"

definition ev_state :: "ev_network \<Rightarrow> string \<Rightarrow> ev_data option" where
  "ev_state net v = map_of (ev_vehicles net) v"

section \<open>Specification-side definitions and example data\<close>

text \<open>
  The voltage-class table as the specification words it: the multiplier applied to the
  proportional flow and the fraction of the capacity at which the flow is capped.
\<close>

definition class_multiplier :: "real \<Rightarrow> real" where
  "class_multiplier v =
     (if v = 138 then 1.5 else if v = 27 then 1.2 else if v = 13.8 then 1.0 else 0.8)"

definition class_cap_fraction :: "real \<Rightarrow> real" where
  "class_cap_fraction v =
     (if v = 138 then 0.8 else if v = 27 then 0.7 else if v = 13.8 then 0.6 else 0.5)"

text \<open>
  The state of charge after a tick of \<open>dt\<close> hours as the specification words it:
  discharging reduces it by \<open>output \<times> dt / efficiency / capacityMWh\<close>, charging raises
  it by \<open>|output| \<times> dt \<times> efficiency / capacityMWh\<close>, and the result is clamped to
  \<open>[0, 1]\<close>.
\<close>

definition spec_soc :: "real \<Rightarrow> generator \<Rightarrow> real" where
  "spec_soc dt g =
     max 0 (min 1
       (if current_output g > 0
        then current_soc g - current_output g * dt / efficiency g / energy_capacity_mwh g
        else if current_output g < 0
        then current_soc g + \<bar>current_output g\<bar> * dt * efficiency g / energy_capacity_mwh g
        else current_soc g))"

text \<open>
  The battery of the state-of-charge scenario: the Times Square storage unit of
  \<open>_add_generators\<close>, discharging at its full 50 MW.
\<close>

definition example_battery :: generator where
  "example_battery =
     \<lparr>gname = ''GEN_BESS_Times_Square'', gtype = Battery, capacity_mw = 50,
      min_mw = - 50, cost_per_mwh = 15, must_run = False, current_output = 50,
      current_soc = 0.5, energy_capacity_mwh = 200, efficiency = 0.9\<rparr>"

text \<open>A 138 kV line of \<open>_add_transmission_lines\<close>, a 4.16 kV feeder, and a network.\<close>

definition example_lines :: "line list" where
  "example_lines =
     [\<lparr>lname = ''TL_138_Hellgate_Columbus'', voltage = 138, line_capacity_mw = 600,
       current_flow = 0\<rparr>,
      \<lparr>lname = ''SEC_4_16_Feeder'', voltage = 4.16, line_capacity_mw = 10,
       current_flow = 0\<rparr>]"

definition example_grid :: network where
  "example_grid =
     \<lparr>generators = [example_battery], lines = example_lines,
      transformers = [\<lparr>xname = ''XFMR_1'', rating_mva = 100\<rparr>],
      total_load = 400, total_generation = 0,
      thermal_violations = [], voltage_violations = []\<rparr>"




text \<open>
  The doubles that the interpreter computes for \<open>(lat - 40.700) * 1000\<close> at the
  latitudes written \<open>40.7\<close>, \<open>40.75\<close> and \<open>40.76\<close>: \<open>0.0\<close>,
  \<open>49.99999999999716\<close> and \<open>59.99999999999517\<close>, given exactly as fractions. For the
  other latitudes, which the examples do not use for avenues, the exact value stands in.
\<close>

definition double_scaled :: "real \<Rightarrow> real" where
  "double_scaled l =
     (if l = 40.7 then 0
      else if l = 40.75 then 439804651110375 / 8796093022208
      else if l = 40.76 then 1055531162664875 / 17592186044416
      else (l - 40.700) * 1000)"

text \<open>
  A light put at the start of phase \<open>p\<close>, and the first avenue that
  \<open>initialize_manhattan_lights\<close> creates for a signal on the southern boundary.
\<close>

definition at_phase :: "int \<Rightarrow> light \<Rightarrow> light" where
  "at_phase p l = l\<lparr>phase := p, timer := 0\<rparr>"

definition example_avenue :: light where
  "example_avenue = init_light double_scaled 0 (- 73.98, 40.700) 0"

text \<open>Four signals in discovery order, with their positions \<open>(lon, lat)\<close>.\<close>

definition example_signals :: "(string \<times> real \<times> real) list" where
  "example_signals =
     [(''tl_a'', (- 73.98, 40.75)), (''tl_b'', (- 73.97, 40.7505)),
      (''tl_c'', (- 73.96, 40.77)), (''tl_d'', (- 73.95, 40.76))]"

text \<open>
  Example data for the charging coordinator: an environment in which every vehicle is
  classified electric and every first sighting draws a battery of 60; a station with a
  single charger; a coordinator created by \<open>__init__\<close> with that station; a vehicle
  standing at the station.
\<close>

definition example_env :: env where
  "example_env = \<lparr>py_hash = (\<lambda>_. 7), uniform_20_80 = (\<lambda>_. 60), random_draw = (\<lambda>_. 0.5),
     routed = (\<lambda>_. None)\<rparr>"

definition example_station :: station where
  "example_station = \<lparr>sid = ''ev_station_0'', lat = 40.75, lon = - 73.98, capacity = 1,
     vehicles_charging = []\<rparr>"

definition empty_coordinator :: ev_network where
  "empty_coordinator = \<lparr>stations = [example_station], charging_vehicles = [], ev_vehicles = [],
     ev_share_percent = 30, ev_charging_bias_percent = 30\<rparr>"

definition parked_vehicle :: "string \<Rightarrow> vehicle" where
  "parked_vehicle k = \<lparr>vid = k, vx = - 73.98, vy = 40.75, speed = 0, is_ev = False,
     v_charging = False\<rparr>"

text \<open>
  Views of the loop state used to state the properties: the occupancy list of a station
  id, the loop over a snapshot as a function of the accumulators, the accumulators at the
  start and at the end of a call, and whether a vehicle id is in some station's list.
\<close>

definition occ :: "ev_acc \<Rightarrow> string \<Rightarrow> string list" where
  "occ a s = occupants (acc_charging_vehicles a) s"

text \<open>
  The invariant of the tracked states: the battery percentage is in \<open>[0, 100]\<close>, and a
  state flagged as charging has a battery below 95.
\<close>

definition ev_ok :: "(string \<times> ev_data) list \<Rightarrow> bool" where
  "ev_ok evs = (\<forall>k d. map_of evs k = Some d \<longrightarrow>
                  0 \<le> battery d \<and> battery d \<le> 100 \<and> (charging d \<longrightarrow> battery d < 95))"

definition run_snapshot :: "env \<Rightarrow> int \<Rightarrow> int \<Rightarrow> station list \<Rightarrow> vehicle list \<Rightarrow> ev_acc \<Rightarrow> ev_acc" where
  "run_snapshot e share bias sts vs a = snd (for_each (process_vehicle e share bias sts) vs a)"

text \<open>No station's list is longer than the station's capacity.\<close>

definition cap_ok :: "station list \<Rightarrow> ev_acc \<Rightarrow> bool" where
  "cap_ok sts a = (\<forall>st \<in> set sts. int (length (occ a (sid st))) \<le> capacity st)"

definition initial_acc :: "ev_network \<Rightarrow> ev_acc" where
  "initial_acc net = \<lparr>acc_ev_vehicles = ev_vehicles net, acc_charging_vehicles = [],
     total_evs = 0, charging_count = 0\<rparr>"

definition tick_acc :: "env \<Rightarrow> ev_network \<Rightarrow> vehicle list \<Rightarrow> ev_acc" where
  "tick_acc e net vs =
     run_snapshot e (clamp_percent (ev_share_percent net))
       (clamp_percent (ev_charging_bias_percent net)) (stations net) vs (initial_acc net)"

definition metered :: "ev_network \<Rightarrow> string \<Rightarrow> bool" where
  "metered net k = (\<exists>st \<in> set (stations net). k \<in> set (vehicles_charging st))"

text \<open>
  A coordinator that already tracks a vehicle at 94.8%, and a snapshot with that vehicle
  and a second one, both standing at the single-charger station.
\<close>

definition busy_coordinator :: ev_network where
  "busy_coordinator = empty_coordinator\<lparr>ev_vehicles :=
     [(''veh_0'', \<lparr>battery = 94.8, charging = False, target_station = None\<rparr>)]\<rparr>"

definition two_vehicles :: "vehicle list" where
  "two_vehicles = [parked_vehicle ''veh_0'', parked_vehicle ''veh_1'']"



definition well_formed :: "generator \<Rightarrow> bool" where
  "well_formed g =
     ((is_thermal g \<longrightarrow> min_mw g \<le> capacity_mw g) \<and>
      (gtype g = Battery \<longrightarrow> 0 \<le> capacity_mw g \<and> 0 \<le> energy_capacity_mwh g))"

text \<open>
  Example generators and networks: the two units of the merit-order scenario, alone and
  with a 20 MW solar unit ahead of them, and two thermal units of \<open>_add_generators\<close>.
\<close>

definition thermal_unit :: "string \<Rightarrow> gen_type \<Rightarrow> real \<Rightarrow> real \<Rightarrow> real \<Rightarrow> generator" where
  "thermal_unit n t cost cap mn =
     \<lparr>gname = n, gtype = t, capacity_mw = cap, min_mw = mn, cost_per_mwh = cost,
      must_run = False, current_output = 0, current_soc = 0, energy_capacity_mwh = 0,
      efficiency = 0\<rparr>"

definition solar_unit :: "string \<Rightarrow> real \<Rightarrow> generator" where
  "solar_unit n cap =
     \<lparr>gname = n, gtype = Solar_pv, capacity_mw = cap, min_mw = 0, cost_per_mwh = 0,
      must_run = False, current_output = 0, current_soc = 0, energy_capacity_mwh = 0,
      efficiency = 0.22\<rparr>"

definition grid_of :: "generator list \<Rightarrow> real \<Rightarrow> network" where
  "grid_of gens load =
     \<lparr>generators = gens, lines = [], transformers = [], total_load = load,
      total_generation = 0, thermal_violations = [], voltage_violations = []\<rparr>"



definition repo_example :: network where
  "repo_example =
     grid_of [thermal_unit ''GEN_East_River_GT1'' Gas_turbine 120 180 50,
              thermal_unit ''GEN_Hudson_CC1'' Combined_cycle 65 500 150] 400"

section \<open>Verified properties\<close>

subsection \<open>Battery state of charge\<close>

lemma update_soc_spec:
  assumes "gtype g = Battery \<longrightarrow> efficiency g \<noteq> 0 \<and> energy_capacity_mwh g \<noteq> 0"
  shows "update_soc g =
           Inr (if gtype g = Battery then g\<lparr>current_soc := spec_soc time_step_hours g\<rparr> else g)"
  using assms by (simp add: update_soc_def spec_soc_def Let_def)

lemma update_battery_soc_loop_spec:
  assumes "\<forall>g \<in> set gs. gtype g = Battery \<longrightarrow> efficiency g \<noteq> 0 \<and> energy_capacity_mwh g \<noteq> 0"
  shows "update_battery_soc_loop gs =
           (map (\<lambda>g. if gtype g = Battery then g\<lparr>current_soc := spec_soc time_step_hours g\<rparr>
                      else g) gs, None)"
  using assms
proof (induction gs)
  case Nil
  then show ?case by simp
next
  case (Cons g gs)
  have "update_soc g =
          Inr (if gtype g = Battery then g\<lparr>current_soc := spec_soc time_step_hours g\<rparr> else g)"
    using Cons.prems by (intro update_soc_spec) simp
  moreover have "update_battery_soc_loop gs =
           (map (\<lambda>g. if gtype g = Battery then g\<lparr>current_soc := spec_soc time_step_hours g\<rparr>
                      else g) gs, None)"
    using Cons.IH Cons.prems by simp
  ultimately show ?case by simp
qed

lemma spec_soc_range: "0 \<le> spec_soc dt g \<and> spec_soc dt g \<le> 1"
  by (simp add: spec_soc_def)

text \<open>
  Claim C6. On a network whose batteries have an efficiency and an energy capacity other
  than zero, \<open>_update_battery_soc\<close> raises nothing, leaves every other generator and every
  other field as it is, and gives every battery the state of charge of the specification
  for \<open>dt = 0.25\<close> hours: a discharging battery (output above zero) loses
  \<open>output \<times> dt / efficiency / capacityMWh\<close>, a charging one (output below zero) gains
  \<open>|output| \<times> dt \<times> efficiency / capacityMWh\<close>, and the result is clamped to \<open>[0, 1]\<close>.
  The witness is the scenario of the specification: from 0.5 the state of charge becomes
  \<open>0.5 - (50 \<times> 0.25 / 0.9) / 200\<close>, about 0.4306.
\<close>

theorem battery_soc_update:
  assumes "\<forall>g \<in> set (generators net).
             gtype g = Battery \<longrightarrow> efficiency g \<noteq> 0 \<and> energy_capacity_mwh g \<noteq> 0"
  shows "update_battery_soc net =
           (net\<lparr>generators :=
                  map (\<lambda>g. if gtype g = Battery then g\<lparr>current_soc := spec_soc 0.25 g\<rparr> else g)
                    (generators net)\<rparr>, None) \<and>
         (\<forall>g \<in> set (generators (fst (update_battery_soc net))).
            gtype g = Battery \<longrightarrow> 0 \<le> current_soc g \<and> current_soc g \<le> 1) \<and>
         (\<forall>i < length (generators net). gtype (generators net ! i) = Battery \<longrightarrow>
            (0 < current_output (generators net ! i) \<longrightarrow>
               current_soc (generators (fst (update_battery_soc net)) ! i) =
                 max 0 (min 1 (current_soc (generators net ! i) -
                   current_output (generators net ! i) * 0.25 / efficiency (generators net ! i) /
                     energy_capacity_mwh (generators net ! i)))) \<and>
            (current_output (generators net ! i) < 0 \<longrightarrow>
               current_soc (generators (fst (update_battery_soc net)) ! i) =
                 max 0 (min 1 (current_soc (generators net ! i) +
                   \<bar>current_output (generators net ! i)\<bar> * 0.25 *
                     efficiency (generators net ! i) /
                     energy_capacity_mwh (generators net ! i)))) \<and>
            (current_output (generators net ! i) = 0 \<longrightarrow>
               current_soc (generators (fst (update_battery_soc net)) ! i) =
                 max 0 (min 1 (current_soc (generators net ! i)))))"
proof -
  have a: "update_battery_soc net =
           (net\<lparr>generators :=
                  map (\<lambda>g. if gtype g = Battery then g\<lparr>current_soc := spec_soc 0.25 g\<rparr> else g)
                    (generators net)\<rparr>, None)"
    using update_battery_soc_loop_spec [OF assms]
    by (simp add: update_battery_soc_def time_step_hours_def)
  have b: "\<forall>g \<in> set (generators (fst (update_battery_soc net))).
            gtype g = Battery \<longrightarrow> 0 \<le> current_soc g \<and> current_soc g \<le> 1"
    unfolding a using spec_soc_range by auto
  have c: "current_soc (generators (fst (update_battery_soc net)) ! i) =
             spec_soc 0.25 (generators net ! i)"
    if "i < length (generators net)" "gtype (generators net ! i) = Battery" for i
    unfolding a using that by simp
  show ?thesis
  proof (intro conjI allI impI)
    show "update_battery_soc net =
           (net\<lparr>generators :=
                  map (\<lambda>g. if gtype g = Battery then g\<lparr>current_soc := spec_soc 0.25 g\<rparr> else g)
                    (generators net)\<rparr>, None)"
      by (rule a)
    show "\<forall>g \<in> set (generators (fst (update_battery_soc net))).
            gtype g = Battery \<longrightarrow> 0 \<le> current_soc g \<and> current_soc g \<le> 1"
      by (rule b)
  qed (simp_all add: c spec_soc_def)
qed

theorem battery_soc_update_witness:
  "list_all (\<lambda>g. gtype g = Battery \<and> efficiency g \<noteq> 0 \<and> energy_capacity_mwh g \<noteq> 0)
     (generators example_grid) \<and>
   snd (update_battery_soc example_grid) = None \<and>
   map current_soc (generators (fst (update_battery_soc example_grid))) =
     [0.5 - (50 * 0.25 / 0.9) / 200] \<and>
   \<bar>0.5 - (50 * 0.25 / 0.9) / 200 - 0.4306\<bar> < (0.0001::real)"
proof -
  have h: "\<forall>g \<in> set (generators example_grid).
             gtype g = Battery \<longrightarrow> efficiency g \<noteq> 0 \<and> energy_capacity_mwh g \<noteq> 0"
    by (simp add: example_grid_def example_battery_def)
  have l: "list_all (\<lambda>g. gtype g = Battery \<and> efficiency g \<noteq> 0 \<and> energy_capacity_mwh g \<noteq> 0)
     (generators example_grid)"
    by (simp add: example_grid_def example_battery_def)
  from battery_soc_update [OF h]
  have u: "update_battery_soc example_grid =
           (example_grid\<lparr>generators :=
                  map (\<lambda>g. if gtype g = Battery then g\<lparr>current_soc := spec_soc 0.25 g\<rparr> else g)
                    (generators example_grid)\<rparr>, None)"
    by blast
  have "map current_soc (generators (fst (update_battery_soc example_grid))) =
     [0.5 - (50 * 0.25 / 0.9) / 200]"
    unfolding u by (simp add: example_grid_def example_battery_def spec_soc_def)
  moreover have "snd (update_battery_soc example_grid) = None" unfolding u by simp
  ultimately show ?thesis using l by simp
qed

subsection \<open>Line-flow estimate\<close>

text \<open>
  Claim C7. After \<open>_calculate_line_flows\<close> the flow of every line is
  \<open>total_load \<times> 0.001 \<times> capacity\<close> times the multiplier of the line's voltage class,
  capped at the class's fraction of the capacity: 1.5 and 80% at 138 kV, 1.2 and 70% at
  27 kV, 1.0 and 60% at 13.8 kV, 0.8 and 50% for every other voltage.
\<close>

theorem line_flow_estimate:
  "map current_flow (lines (calculate_line_flows net)) =
     map (\<lambda>l. min (total_load net * 0.001 * line_capacity_mw l * class_multiplier (voltage l))
                  (class_cap_fraction (voltage l) * line_capacity_mw l)) (lines net)"
  by (simp add: calculate_line_flows_def line_flow_def class_multiplier_def
      class_cap_fraction_def Let_def mult.commute)

theorem line_flow_estimate_witness:
  "map current_flow (lines (calculate_line_flows example_grid)) = [360, 3.2]"
  using line_flow_estimate [of example_grid]
  by (simp add: example_grid_def example_lines_def class_multiplier_def class_cap_fraction_def)

subsection \<open>Violation check\<close>
















subsection \<open>No thermal violation after a simulation pass\<close>

lemma utilization_after_flow:
  "utilization (l\<lparr>current_flow := line_flow load l\<rparr>) \<le> 80"
proof (cases "line_capacity_mw l > 0")
  case True
  have "line_flow load l \<le> line_capacity_mw l * 0.8"
    using True by (auto simp: line_flow_def Let_def min_def)
  then show ?thesis using True by (simp add: utilization_def field_simps)
next
  case False
  then show ?thesis by (simp add: utilization_def)
qed

lemma no_line_violation_after_flow:
  "line_violations (l\<lparr>current_flow := line_flow load l\<rparr>) = []"
  using utilization_after_flow [of load l] by (simp add: line_violations_def Let_def)

lemma no_transformer_violation:
  "uniform_result 60 95 v \<Longrightarrow> transformer_violations v x = []"
  by (simp add: uniform_result_def transformer_violations_def)

lemma check_after_flows:
  assumes "\<forall>i. uniform_result 60 95 (uniform i)"
  shows "thermal_violations (check_violations uniform (calculate_line_flows net)) = []"
  using assms
  by (auto simp: check_violations_def calculate_line_flows_def no_line_violation_after_flow
      no_transformer_violation)

lemma update_battery_soc_violations:
  "thermal_violations (fst (update_battery_soc net)) = thermal_violations net"
  by (simp add: update_battery_soc_def split: prod.splits)

lemma economic_dispatch_lines: "lines (economic_dispatch hour net) = lines net"
  by (simp add: economic_dispatch_def split: prod.splits)

lemma update_battery_soc_lines: "lines (fst (update_battery_soc net)) = lines net"
  by (simp add: update_battery_soc_def split: prod.splits)

lemma lines_after_pass:
  "lines (fst (simulate_power_flow hour uniform net)) =
     map (\<lambda>l. l\<lparr>current_flow := line_flow (total_load (economic_dispatch hour net)) l\<rparr>) (lines net)"
  by (simp add: simulate_power_flow_def update_battery_soc_lines check_violations_def
      calculate_line_flows_def economic_dispatch_lines)

text \<open>
  Claim C10. Whatever the load and the lines are, the flow estimate of a line never
  exceeds 80% of its capacity, and a transformer loading drawn from \<open>[60, 95]\<close> never
  exceeds 100; so after every simulation pass the list of thermal violations is empty
  and the thermal count of the status object is 0.
\<close>

theorem no_thermal_violations:
  assumes "\<forall>i. uniform_result 60 95 (uniform i)"
  shows "(\<forall>l \<in> set (lines (fst (simulate_power_flow hour uniform net))). utilization l \<le> 80) \<and>
         thermal_violations (fst (simulate_power_flow hour uniform net)) = [] \<and>
         fst (status_violations (fst (simulate_power_flow hour uniform net))) = 0"
proof -
  have "\<forall>l \<in> set (lines (fst (simulate_power_flow hour uniform net))). utilization l \<le> 80"
    by (auto simp: lines_after_pass utilization_after_flow)
  then show ?thesis
    using check_after_flows [OF assms]
    by (simp add: simulate_power_flow_def update_battery_soc_violations status_violations_def)
qed

theorem no_thermal_violations_witness:
  "(\<forall>i. uniform_result 60 95 ((\<lambda>_. 95) i)) \<and>
   map utilization (lines (fst (simulate_power_flow 12 (\<lambda>_. 95) example_grid))) = [60, 32] \<and>
   thermal_violations (fst (simulate_power_flow 12 (\<lambda>_. 95) example_grid)) = [] \<and>
   fst (status_violations (fst (simulate_power_flow 12 (\<lambda>_. 95) example_grid))) = 0"
proof -
  have h: "\<forall>i. uniform_result 60 95 ((\<lambda>_. 95) i)" by (simp add: uniform_result_def)
  have "total_load (economic_dispatch 12 example_grid) = 400"
    by (simp add: economic_dispatch_def example_grid_def split: prod.splits)
  then have "map utilization (lines (fst (simulate_power_flow 12 (\<lambda>_. 95) example_grid))) = [60, 32]"
    by (simp add: lines_after_pass example_grid_def example_lines_def line_flow_def
        utilization_def Let_def)
  then show ?thesis using h no_thermal_violations [OF h, of 12 example_grid] by simp
qed

subsection \<open>Traffic-light phases\<close>

lemma ticks_0 [simp]: "ticks 0 l = l"
  by (simp add: ticks_def)

lemma ticks_Suc: "ticks (Suc n) l = update_light (ticks n l)"
  by (simp add: ticks_def)

lemma ticks_add: "ticks (m + n) l = ticks m (ticks n l)"
  by (simp add: ticks_def funpow_add)

lemma duration_timer [simp]: "duration (l\<lparr>timer := t\<rparr>) = duration l"
  by (simp add: duration_def)

lemma update_light_phase:
  "phase (update_light l) = (if timer l + 1 \<ge> duration l then (phase l + 1) mod 6 else phase l)"
  by (simp add: update_light_def Let_def)

lemma update_light_timer:
  "timer (update_light l) = (if timer l + 1 \<ge> duration l then 0 else timer l + 1)"
  by (simp add: update_light_def Let_def)

lemma ticks_phase_range:
  "0 \<le> phase l \<Longrightarrow> phase l < 6 \<Longrightarrow> 0 \<le> phase (ticks n l) \<and> phase (ticks n l) < 6"
  by (induction n) (simp_all add: ticks_Suc update_light_phase)

lemma within_phase:
  "timer l = 0 \<Longrightarrow> int n < duration l \<Longrightarrow> ticks n l = l\<lparr>timer := int n\<rparr>"
proof (induction n)
  case 0
  then show ?case by simp
next
  case (Suc n)
  then have "ticks n l = l\<lparr>timer := int n\<rparr>" by simp
  then show ?case using Suc.prems by (simp add: ticks_Suc update_light_def Let_def)
qed

lemma phase_end:
  assumes "timer l = 0" "duration l = int (Suc n)"
  shows "ticks (Suc n) l = l\<lparr>phase := (phase l + 1) mod 6, timer := 0\<rparr>"
proof -
  have "ticks n l = l\<lparr>timer := int n\<rparr>" using assms by (simp add: within_phase)
  then show ?thesis using assms by (simp add: ticks_Suc update_light_def Let_def)
qed


lemma run_phase:
  assumes "timer l = 0" "1 \<le> duration l"
  shows "ticks (nat (duration l)) l = l\<lparr>phase := (phase l + 1) mod 6, timer := 0\<rparr>"
proof -
  obtain n where n: "nat (duration l) = Suc n"
    using assms(2) by (metis Suc_pred' zero_less_nat_eq zero_less_one_class.zero_less_one order_less_le_trans)
  then have "duration l = int (Suc n)" using assms(2) by linarith
  from phase_end [OF assms(1) this] n show ?thesis by simp
qed

lemma at_phase_simps [simp]:
  "timer (at_phase p l) = 0" "phase (at_phase p l) = p"
  "green_time (at_phase p l) = green_time l" "yellow_time (at_phase p l) = yellow_time l"
  "all_red_time (at_phase p l) = all_red_time l"
  by (simp_all add: at_phase_def)

lemma at_phase_next: "(at_phase p l)\<lparr>phase := q, timer := 0\<rparr> = at_phase q l"
  by (simp add: at_phase_def)

lemma at_phase_self: "phase l = p \<Longrightarrow> timer l = 0 \<Longrightarrow> at_phase p l = l"
  by (simp add: at_phase_def)

lemma segment:
  assumes "ticks s l = at_phase p l" "1 \<le> duration (at_phase p l)"
    and "d = nat (duration (at_phase p l))"
  shows "ticks (s + d) l = at_phase ((p + 1) mod 6) l"
    and "\<And>k. s \<le> k \<Longrightarrow> k < s + d \<Longrightarrow>
           phase (ticks k l) = p \<and> timer (ticks k l) = int (k - s)"
proof -
  have "ticks (s + d) l = ticks d (ticks s l)"
    using ticks_add [of d s l] by (simp add: add.commute)
  then show "ticks (s + d) l = at_phase ((p + 1) mod 6) l"
    using run_phase [of "at_phase p l"] assms by (simp add: at_phase_next)
next
  fix k assume k: "s \<le> k" "k < s + d"
  then have "ticks k l = ticks (k - s) (at_phase p l)"
    using assms(1) ticks_add [of "k - s" s l] by simp
  also have "\<dots> = (at_phase p l)\<lparr>timer := int (k - s)\<rparr>"
    using k assms(2,3) by (intro within_phase) auto
  finally show "phase (ticks k l) = p \<and> timer (ticks k l) = int (k - s)" by simp
qed

lemma full_cycle:
  assumes start: "phase l = 0" "timer l = 0"
    and pos: "1 \<le> green_time l" "1 \<le> yellow_time l" "1 \<le> all_red_time l"
  shows "ticks (nat (cycle_length l)) l = l"
    and "\<And>k. 0 < k \<Longrightarrow> k < nat (cycle_length l) \<Longrightarrow> phase (ticks k l) \<noteq> 0 \<or> timer (ticks k l) \<noteq> 0"
proof -
  define G where "G = nat (green_time l)"
  define Y where "Y = nat (yellow_time l)"
  define R where "R = nat (all_red_time l)"
  have d [simp]: "duration (at_phase 0 l) = green_time l" "duration (at_phase 1 l) = yellow_time l"
    "duration (at_phase 2 l) = all_red_time l" "duration (at_phase 3 l) = green_time l"
    "duration (at_phase 4 l) = yellow_time l" "duration (at_phase 5 l) = all_red_time l"
    by (simp_all add: duration_def)
  have s0: "ticks 0 l = at_phase 0 l" using start by (simp add: at_phase_self)
  have s1: "ticks (0 + G) l = at_phase 1 l"
    using segment(1) [OF s0, of G] pos by (simp add: G_def)
  have s2: "ticks (0 + G + Y) l = at_phase 2 l"
    using segment(1) [OF s1, of Y] pos by (simp add: Y_def)
  have s3: "ticks (0 + G + Y + R) l = at_phase 3 l"
    using segment(1) [OF s2, of R] pos by (simp add: R_def)
  have s4: "ticks (0 + G + Y + R + G) l = at_phase 4 l"
    using segment(1) [OF s3, of G] pos by (simp add: G_def)
  have s5: "ticks (0 + G + Y + R + G + Y) l = at_phase 5 l"
    using segment(1) [OF s4, of Y] pos by (simp add: Y_def)
  have s6: "ticks (0 + G + Y + R + G + Y + R) l = at_phase 0 l"
    using segment(1) [OF s5, of R] pos by (simp add: R_def)
  have c: "nat (cycle_length l) = 0 + G + Y + R + G + Y + R"
    using pos by (simp add: cycle_length_def G_def Y_def R_def)
  show "ticks (nat (cycle_length l)) l = l"
    using s6 c start by (simp add: at_phase_self)
  fix k :: nat assume k: "0 < k" "k < nat (cycle_length l)"
  have Gp: "0 < G" "0 < Y" "0 < R" using pos by (simp_all add: G_def Y_def R_def)
  consider "k < 0 + G" | "0 + G \<le> k" "k < 0 + G + Y" | "0 + G + Y \<le> k" "k < 0 + G + Y + R"
    | "0 + G + Y + R \<le> k" "k < 0 + G + Y + R + G"
    | "0 + G + Y + R + G \<le> k" "k < 0 + G + Y + R + G + Y"
    | "0 + G + Y + R + G + Y \<le> k" "k < 0 + G + Y + R + G + Y + R"
    using k c by linarith
  then show "phase (ticks k l) \<noteq> 0 \<or> timer (ticks k l) \<noteq> 0"
  proof cases
    case 1
    then show ?thesis using segment(2) [OF s0, of G k] pos k by (simp add: G_def)
  next
    case 2
    then show ?thesis using segment(2) [OF s1, of Y k] pos by (simp add: Y_def)
  next
    case 3
    then show ?thesis using segment(2) [OF s2, of R k] pos by (simp add: R_def)
  next
    case 4
    then show ?thesis using segment(2) [OF s3, of G k] pos by (simp add: G_def)
  next
    case 5
    then show ?thesis using segment(2) [OF s4, of Y k] pos by (simp add: Y_def)
  next
    case 6
    then show ?thesis using segment(2) [OF s5, of R k] pos by (simp add: R_def)
  qed
qed

lemma update_cycle_funpow:
  "(update_cycle ^^ n) lights = map (\<lambda>(tl_id, l). (tl_id, ticks n l)) lights"
proof (induction n)
  case 0
  then show ?case by (simp add: case_prod_unfold)
next
  case (Suc n)
  then show ?case by (simp add: update_cycle_def ticks_Suc case_prod_unfold)
qed

text \<open>
  Claim C5. For a light whose phase is in \<open>{0,\<dots>,5}\<close>, after any number of calls of
  \<open>update_cycle\<close> the phase is still in \<open>{0,\<dots>,5}\<close>. Each call either leaves the phase
  and adds one to the timer, or moves the phase to \<open>(phase + 1) mod 6\<close> and resets the
  timer to zero, and it does the latter exactly when the incremented timer has reached
  the duration of the phase the light is in (green for 0 and 3, yellow for 1 and 4,
  all-red for 2 and 5). A light at the start of phase 0 whose three durations are at least
  one tick is back in that state after \<open>2 \<times> (green + yellow + allred)\<close> calls and in no
  smaller positive number of calls.
\<close>

theorem phase_state_machine:
  assumes "0 \<le> phase l" "phase l < 6"
  shows "(\<forall>n. phase (ticks n l) \<in> {0, 1, 2, 3, 4, 5}) \<and>
         (\<forall>n. phase (ticks (Suc n) l) =
                 (if timer (ticks n l) + 1 \<ge> duration (ticks n l)
                  then (phase (ticks n l) + 1) mod 6 else phase (ticks n l)) \<and>
               timer (ticks (Suc n) l) =
                 (if timer (ticks n l) + 1 \<ge> duration (ticks n l)
                  then 0 else timer (ticks n l) + 1)) \<and>
         (\<forall>n lights. (update_cycle ^^ n) lights = map (\<lambda>(tl_id, k). (tl_id, ticks n k)) lights) \<and>
         (phase l = 0 \<and> timer l = 0 \<and>
          1 \<le> green_time l \<and> 1 \<le> yellow_time l \<and> 1 \<le> all_red_time l \<longrightarrow>
            ticks (nat (cycle_length l)) l = l \<and>
            (\<forall>k. 0 < k \<and> k < nat (cycle_length l) \<longrightarrow> ticks k l \<noteq> l))"
proof (intro conjI allI impI)
  fix n
  have "0 \<le> phase (ticks n l) \<and> phase (ticks n l) < 6"
    using assms by (rule ticks_phase_range)
  then show "phase (ticks n l) \<in> {0, 1, 2, 3, 4, 5}" by auto
next
  fix n
  show "phase (ticks (Suc n) l) =
          (if timer (ticks n l) + 1 \<ge> duration (ticks n l)
           then (phase (ticks n l) + 1) mod 6 else phase (ticks n l))"
    by (simp only: ticks_Suc update_light_phase)
next
  fix n
  show "timer (ticks (Suc n) l) =
          (if timer (ticks n l) + 1 \<ge> duration (ticks n l) then 0 else timer (ticks n l) + 1)"
    by (simp only: ticks_Suc update_light_timer)
next
  fix n lights
  show "(update_cycle ^^ n) lights = map (\<lambda>(tl_id, k). (tl_id, ticks n k)) lights"
    by (rule update_cycle_funpow)
next
  assume a: "phase l = 0 \<and> timer l = 0 \<and>
          1 \<le> green_time l \<and> 1 \<le> yellow_time l \<and> 1 \<le> all_red_time l"
  then show "ticks (nat (cycle_length l)) l = l"
    using full_cycle(1) [of l] by blast
next
  fix k
  assume a: "phase l = 0 \<and> timer l = 0 \<and>
          1 \<le> green_time l \<and> 1 \<le> yellow_time l \<and> 1 \<le> all_red_time l"
    and k: "0 < k \<and> k < nat (cycle_length l)"
  then have "phase (ticks k l) \<noteq> 0 \<or> timer (ticks k l) \<noteq> 0"
    using full_cycle(2) [of l k] by blast
  then show "ticks k l \<noteq> l" using a by auto
qed

theorem phase_state_machine_witness:
  "0 \<le> phase example_avenue \<and> phase example_avenue < 6 \<and>
   phase example_avenue = 0 \<and> timer example_avenue = 0 \<and>
   1 \<le> green_time example_avenue \<and> 1 \<le> yellow_time example_avenue \<and>
   1 \<le> all_red_time example_avenue \<and>
   cycle_length example_avenue = 80 \<and>
   ticks 80 example_avenue = example_avenue \<and>
   ticks 40 example_avenue \<noteq> example_avenue \<and>
   phase (ticks 35 example_avenue) \<in> {0, 1, 2, 3, 4, 5}"
proof -
  have f: "phase example_avenue = 0" "timer example_avenue = 0"
    "green_time example_avenue = 35" "yellow_time example_avenue = 3"
    "all_red_time example_avenue = 2"
    by (simp_all add: example_avenue_def init_light_def is_avenue_def avenue_offset_def py_int_def
        double_scaled_def)
  have c: "cycle_length example_avenue = 80" by (simp add: cycle_length_def f)
  have h: "0 \<le> phase example_avenue" "phase example_avenue < 6" by (simp_all add: f)
  note th = phase_state_machine [OF h]
  from th have r: "phase (ticks 35 example_avenue) \<in> {0, 1, 2, 3, 4, 5}" by blast
  from th f c have ret: "ticks 80 example_avenue = example_avenue" by simp
  from th f c have "\<forall>k. 0 < k \<and> k < (80::nat) \<longrightarrow> ticks k example_avenue \<noteq> example_avenue"
    by simp
  then have "ticks 40 example_avenue \<noteq> example_avenue" by simp
  with f c r ret show ?thesis by simp
qed

subsection \<open>Signal initialization\<close>

lemma update_fresh_key:
  "k \<notin> fst ` set al \<Longrightarrow> AList.update k v al = al @ [(k, v)]"
  by (induction al) auto

lemma init_loop_all_ok:
  assumes "\<forall>i. traci_ok i" "distinct (map fst lights @ map fst sigs)"
  shows "init_loop scaled randint traci_ok i sigs lights =
           (lights @ map (\<lambda>(j, tl_id, gps). (tl_id, init_light scaled j gps (randint j)))
                       (List.enumerate i sigs), True)"
  using assms(2)
proof (induction sigs arbitrary: i lights)
  case Nil
  then show ?case by simp
next
  case (Cons s sigs)
  obtain tl_id gps where s: "s = (tl_id, gps)" by (cases s)
  have fresh: "tl_id \<notin> fst ` set lights" using Cons.prems s by auto
  have d: "distinct (map fst (lights @ [(tl_id, init_light scaled i gps (randint i))]) @
             map fst sigs)"
    using Cons.prems s by auto
  show ?case
    using Cons.IH [OF d, of "Suc i"] assms(1) s
    by (simp add: update_fresh_key [OF fresh])
qed

lemma avenue_offset_range: "0 \<le> avenue_offset scaled gps \<and> avenue_offset scaled gps < 60"
  by (simp add: avenue_offset_def)

lemma py_int_near: "\<bar>of_int (py_int v) - v\<bar> < 1"
  by (simp add: py_int_def) linarith

lemma avenue_offset_latitude:
  assumes "double_result ((snd gps - 40.700) * 1000) (scaled (snd gps))"
  shows "\<exists>n. avenue_offset scaled gps = n mod 60 \<and>
           \<bar>of_int n - (snd gps - 40.700) * 1000\<bar> < 1 + 1 / 10 ^ 9"
proof -
  have "\<bar>of_int (py_int (scaled (snd gps))) - scaled (snd gps)\<bar> < 1"
    by (rule py_int_near)
  moreover have "\<bar>scaled (snd gps) - (snd gps - 40.700) * 1000\<bar> \<le> 1 / 10 ^ 9"
    using assms by (simp add: double_result_def)
  ultimately have "\<bar>of_int (py_int (scaled (snd gps))) - (snd gps - 40.700) * 1000\<bar>
      < 1 + 1 / 10 ^ 9"
    by linarith
  then show ?thesis unfolding avenue_offset_def by blast
qed

text \<open>
  Claim C8, as the code has it. When the simulator calls succeed and the signal ids are
  distinct, \<open>initialize_manhattan_lights\<close> stores one light per discovered signal, in
  discovery order. The signal at index \<open>i\<close> is an avenue exactly when \<open>i mod 3 = 0\<close>
  and a street otherwise. An avenue gets 35 s green, 3 s yellow, 2 s all-red and an
  offset derived from its latitude modulo 60: the double \<open>(lat - 40.700) * 1000\<close>
  truncated to an integer, which is within 1 (and the rounding error) of the exact
  product, taken modulo 60, so that the offset lies in \<open>[0, 60)\<close>. A street gets 25 s,
  3 s, 2 s and the offset drawn by \<open>random.randint(0, 30)\<close>, which lies in \<open>[0, 30]\<close>
  with both ends included.
\<close>

theorem signal_initialization:
  assumes "distinct (map fst sigs)" "\<forall>i. traci_ok i" "\<forall>i. randint_result 0 30 (randint i)"
    "\<forall>l. double_result ((l - 40.700) * 1000) (scaled l)"
  shows "initialize_manhattan_lights scaled randint traci_ok sigs =
           (map (\<lambda>(i, tl_id, gps). (tl_id, init_light scaled i gps (randint i)))
              (List.enumerate 0 sigs), True) \<and>
         (\<forall>i gps.
            (pattern (init_light scaled i gps (randint i)) = AVENUE \<longleftrightarrow> i mod 3 = 0) \<and>
            (pattern (init_light scaled i gps (randint i)) = STREET \<longleftrightarrow> i mod 3 \<noteq> 0) \<and>
            phase (init_light scaled i gps (randint i)) = 0 \<and>
            yellow_time (init_light scaled i gps (randint i)) = 3 \<and>
            all_red_time (init_light scaled i gps (randint i)) = 2 \<and>
            (i mod 3 = 0 \<longrightarrow>
               green_time (init_light scaled i gps (randint i)) = 35 \<and>
               timer (init_light scaled i gps (randint i)) = py_int (scaled (snd gps)) mod 60 \<and>
               (\<exists>n. timer (init_light scaled i gps (randint i)) = n mod 60 \<and>
                  \<bar>of_int n - (snd gps - 40.700) * 1000\<bar> < 1 + 1 / 10 ^ 9) \<and>
               0 \<le> timer (init_light scaled i gps (randint i)) \<and>
               timer (init_light scaled i gps (randint i)) < 60) \<and>
            (i mod 3 \<noteq> 0 \<longrightarrow>
               green_time (init_light scaled i gps (randint i)) = 25 \<and>
               timer (init_light scaled i gps (randint i)) = randint i \<and>
               0 \<le> timer (init_light scaled i gps (randint i)) \<and>
               timer (init_light scaled i gps (randint i)) \<le> 30))"
proof -
  have a: "initialize_manhattan_lights scaled randint traci_ok sigs =
           (map (\<lambda>(i, tl_id, gps). (tl_id, init_light scaled i gps (randint i)))
              (List.enumerate 0 sigs), True)"
    using init_loop_all_ok [of traci_ok "[]" sigs scaled randint 0] assms(1,2)
    by (simp add: initialize_manhattan_lights_def)
  have b: "0 \<le> randint i \<and> randint i \<le> 30" for i
    using assms(3) by (simp add: randint_result_def)
  have c: "\<exists>n. avenue_offset scaled gps = n mod 60 \<and>
           \<bar>of_int n - (snd gps - 40.700) * 1000\<bar> < 1 + 1 / 10 ^ 9" for gps
    using assms(4) by (intro avenue_offset_latitude) simp
  have d: "timer (init_light scaled i gps (randint i)) =
             (if i mod 3 = 0 then avenue_offset scaled gps else randint i)" for i gps
    by (simp add: init_light_def is_avenue_def)
  have e: "(pattern (init_light scaled i gps (randint i)) = AVENUE \<longleftrightarrow> i mod 3 = 0) \<and>
            (pattern (init_light scaled i gps (randint i)) = STREET \<longleftrightarrow> i mod 3 \<noteq> 0) \<and>
            phase (init_light scaled i gps (randint i)) = 0 \<and>
            yellow_time (init_light scaled i gps (randint i)) = 3 \<and>
            all_red_time (init_light scaled i gps (randint i)) = 2 \<and>
            green_time (init_light scaled i gps (randint i)) = (if i mod 3 = 0 then 35 else 25)"
    for i gps
    by (simp add: init_light_def is_avenue_def)
  have f: "avenue_offset scaled gps = py_int (scaled (snd gps)) mod 60" for gps
    by (simp add: avenue_offset_def)
  show ?thesis
  proof (intro conjI allI impI)
    show "initialize_manhattan_lights scaled randint traci_ok sigs =
           (map (\<lambda>(i, tl_id, gps). (tl_id, init_light scaled i gps (randint i)))
              (List.enumerate 0 sigs), True)"
      by (rule a)
  qed (use b c d e f avenue_offset_range in \<open>simp_all\<close>)
qed

lemma double_scaled_ok: "double_result ((l - 40.700) * 1000) (double_scaled l)"
  by (simp add: double_result_def double_scaled_def)

theorem signal_initialization_witness:
  "distinct (map fst example_signals) \<and> (\<forall>i. (\<lambda>_. True) i) \<and>
   (\<forall>i. randint_result 0 30 ((\<lambda>_. 30) i)) \<and>
   (\<forall>l. double_result ((l - 40.700) * 1000) (double_scaled l)) \<and>
   map (\<lambda>(k, l). (k, pattern l, timer l, green_time l))
     (fst (initialize_manhattan_lights double_scaled (\<lambda>_. 30) (\<lambda>_. True) example_signals)) =
     [(''tl_a'', AVENUE, 49, 35), (''tl_b'', STREET, 30, 25),
      (''tl_c'', STREET, 30, 25), (''tl_d'', AVENUE, 59, 35)]"
proof -
  have d: "distinct (map fst example_signals)" by (simp add: example_signals_def)
  have t: "\<forall>i::nat. (\<lambda>_. True) i" by simp
  have r: "\<forall>i::nat. randint_result 0 30 ((\<lambda>_. 30) i)" by (simp add: randint_result_def)
  have k: "\<forall>l. double_result ((l - 40.700) * 1000) (double_scaled l)"
    using double_scaled_ok by blast
  have e: "List.enumerate 0 example_signals =
     [(0, ''tl_a'', (- 73.98, 40.75)), (1, ''tl_b'', (- 73.97, 40.7505)),
      (2, ''tl_c'', (- 73.96, 40.77)), (3, ''tl_d'', (- 73.95, 40.76))]"
    by (simp add: example_signals_def)
  have f1: "\<lfloor>(439804651110375::real) / 8796093022208\<rfloor> = 49" by (simp add: floor_eq_iff)
  have f2: "\<lfloor>(1055531162664875::real) / 17592186044416\<rfloor> = 59" by (simp add: floor_eq_iff)
  from signal_initialization [OF d t r k]
  have "initialize_manhattan_lights double_scaled (\<lambda>_. 30) (\<lambda>_. True) example_signals =
     (map (\<lambda>(i, tl_id, gps). (tl_id, init_light double_scaled i gps 30))
        (List.enumerate 0 example_signals), True)"
    by blast
  then have "map (\<lambda>(k, l). (k, pattern l, timer l, green_time l))
     (fst (initialize_manhattan_lights double_scaled (\<lambda>_. 30) (\<lambda>_. True) example_signals)) =
     [(''tl_a'', AVENUE, 49, 35), (''tl_b'', STREET, 30, 25),
      (''tl_c'', STREET, 30, 25), (''tl_d'', AVENUE, 59, 35)]"
    by (simp add: e init_light_def is_avenue_def avenue_offset_def py_int_def double_scaled_def
        f1 f2)
  with d r k show ?thesis by simp
qed

text \<open>
  The claim as stated fails on the half-open interval: \<open>random.randint(0, 30)\<close> may
  return 30, and a street then starts with the offset 30, which is not below 30.
\<close>

theorem street_offset_counterexample:
  "randint_result 0 30 30 \<and>
   pattern (init_light double_scaled 1 (- 73.97, 40.7505) 30) = STREET \<and>
   timer (init_light double_scaled 1 (- 73.97, 40.7505) 30) = 30 \<and>
   \<not> timer (init_light double_scaled 1 (- 73.97, 40.7505) 30) < 30"
  by (simp add: randint_result_def init_light_def is_avenue_def)

subsection \<open>Electric-vehicle charging\<close>

lemma for_each_Cons_snd:
  "snd (for_each f (x # xs) s) = snd (for_each f xs (snd (f s x)))"
  by (simp split: prod.splits)

lemma for_each_snd_invariant:
  assumes "\<And>s x. x \<in> set xs \<Longrightarrow> I s \<Longrightarrow> I (snd (f s x))" "I s"
  shows "I (snd (for_each f xs s))"
  using assms
proof (induction xs arbitrary: s)
  case Nil
  then show ?case by simp
next
  case (Cons x xs)
  have "I (snd (f s x))" using Cons.prems by simp
  then have "I (snd (for_each f xs (snd (f s x))))"
    using Cons.IH Cons.prems(1) by simp
  then show ?case by (simp only: for_each_Cons_snd)
qed

lemma process_vehicle_keys:
  "fst ` set (acc_ev_vehicles (snd (process_vehicle e share bias sts a v))) =
     fst ` set (acc_ev_vehicles a) \<union> (if classify_ev e share (vid v) then {vid v} else {})"
  by (auto simp: process_vehicle_def Let_def AList.dom_update observe_def split: prod.splits option.splits)

lemma for_each_vehicle_keys:
  "fst ` set (acc_ev_vehicles (snd (for_each (process_vehicle e share bias sts) vs a))) =
     fst ` set (acc_ev_vehicles a) \<union> {vid v | v. v \<in> set vs \<and> classify_ev e share (vid v)}"
proof (induction vs arbitrary: a)
  case Nil
  then show ?case by simp
next
  case (Cons v vs)
  show ?case
    unfolding for_each_Cons_snd Cons.IH process_vehicle_keys by auto
qed

lemma process_ev_charging_ev_vehicles:
  "ev_vehicles (fst (process_ev_charging e net vs)) =
     acc_ev_vehicles (snd (for_each
       (process_vehicle e (clamp_percent (ev_share_percent net))
          (clamp_percent (ev_charging_bias_percent net)) (stations net)) vs
       \<lparr>acc_ev_vehicles = ev_vehicles net, acc_charging_vehicles = [],
        total_evs = 0, charging_count = 0\<rparr>))"
  by (simp add: process_ev_charging_def Let_def split: prod.splits)

text \<open>
  Claim C9, as the code has it. After a call of \<open>process_ev_charging\<close> the tracked
  vehicle ids are those tracked before together with the ids of the snapshot's vehicles
  that are classified electric: a state is created on the first tick such a vehicle is
  observed, and no state is ever removed.
\<close>

theorem ev_state_lifecycle:
  "tracked (fst (process_ev_charging e net vs)) =
     tracked net \<union>
     {vid v | v. v \<in> set vs \<and> classify_ev e (clamp_percent (ev_share_percent net)) (vid v)}"
  by (simp add: tracked_def process_ev_charging_ev_vehicles for_each_vehicle_keys)

theorem ev_state_lifecycle_witness:
  "tracked (fst (process_ev_charging example_env empty_coordinator [parked_vehicle ''veh_0''])) =
     {''veh_0''}"
proof -
  have "classify_ev example_env (clamp_percent (ev_share_percent empty_coordinator)) k" for k
    by (simp add: classify_ev_def example_env_def clamp_percent_def empty_coordinator_def)
  then show ?thesis
    using ev_state_lifecycle [of example_env empty_coordinator "[parked_vehicle ''veh_0'']"]
    by (simp add: tracked_def empty_coordinator_def parked_vehicle_def)
qed

text \<open>
  The claim as stated fails: a vehicle tracked in one tick is still tracked after a later
  tick whose snapshot is empty.
\<close>

theorem ev_state_kept_counterexample:
  "tracked (run_ticks example_env empty_coordinator [[parked_vehicle ''veh_0''], []]) = {''veh_0''} \<and>
   \<not> tracked (run_ticks example_env empty_coordinator [[parked_vehicle ''veh_0''], []])
       \<subseteq> vid ` set ([] :: vehicle list)"
  by (simp add: tracked_def process_ev_charging_def Let_def process_vehicle_def
      classify_ev_def example_env_def clamp_percent_def empty_coordinator_def parked_vehicle_def
      example_station_def capture_radius_def needs_charging_def occupants_def meter_def
      observe_def lookup_state_def request_route_def fresh_state_def at_station_def ensure_entry_def)

lemma occupants_update:
  "occupants (AList.update k l cv) s = (if s = k then l else occupants cv s)"
  by (simp add: occupants_def update_conv')

lemma occupants_ensure_entry [simp]: "occupants (ensure_entry k cv) s = occupants cv s"
  by (auto simp: ensure_entry_def occupants_update) (simp add: occupants_def)

lemma scan_skip:
  "\<not> at_station r v st \<Longrightarrow> scan_stations r v d cv (st # sts) = scan_stations r v d cv sts"
  by simp

lemma scan_pass:
  "at_station r v st \<Longrightarrow>
   \<not> (int (length (occupants cv (sid st))) < capacity st \<and> speed v < 2) \<Longrightarrow>
   scan_stations r v d cv (st # sts) = scan_stations r v d (ensure_entry (sid st) cv) sts"
  by (auto simp: Let_def)

lemma scan_admit:
  "at_station r v st \<Longrightarrow> int (length (occupants cv (sid st))) < capacity st \<Longrightarrow> speed v < 2 \<Longrightarrow>
   scan_stations r v d cv (st # sts) =
     (meter d,
      AList.update (sid st) (occupants cv (sid st) @ [vid v]) (ensure_entry (sid st) cv), True)"
  by (simp add: Let_def)

lemma scan_result:
  "scan_stations r v d cv sts = (d', cv', m) \<Longrightarrow>
     (\<not> m \<and> d' = d \<and> (\<forall>s. occupants cv' s = occupants cv s)) \<or>
     (m \<and> d' = meter d \<and> speed v < 2 \<and>
      (\<exists>st \<in> set sts. at_station r v st \<and> int (length (occupants cv (sid st))) < capacity st \<and>
         (\<forall>s. occupants cv' s =
                (if s = sid st then occupants cv s @ [vid v] else occupants cv s))))"
proof (induction sts arbitrary: cv)
  case Nil
  then show ?case by simp
next
  case (Cons st sts)
  show ?case
  proof (cases "at_station r v st")
    case False
    then have "scan_stations r v d cv sts = (d', cv', m)"
      using Cons.prems scan_skip [OF False, of d cv sts] by simp
    from Cons.IH [OF this] show ?thesis by auto
  next
    case near: True
    show ?thesis
    proof (cases "int (length (occupants cv (sid st))) < capacity st \<and> speed v < 2")
      case False
      then have "scan_stations r v d (ensure_entry (sid st) cv) sts = (d', cv', m)"
        using Cons.prems scan_pass [OF near False, of d sts] by simp
      from Cons.IH [OF this] show ?thesis by auto
    next
      case True
      then have "(d', cv', m) = (meter d,
         AList.update (sid st) (occupants cv (sid st) @ [vid v]) (ensure_entry (sid st) cv), True)"
        using Cons.prems near scan_admit [of r v st cv d sts] by simp
      then show ?thesis using near True by (auto simp: occupants_update)
    qed
  qed
qed

lemma meter_battery: "battery (meter d) = min 100 (battery d + 0.5)"
  by (simp add: meter_def Let_def)

lemma meter_charging: "charging (meter d) = (battery (meter d) < 95)"
  by (auto simp: meter_def Let_def)

lemma at_station_is_ev [simp]: "at_station r (v\<lparr>is_ev := b\<rparr>) st = at_station r v st"
  by (simp add: at_station_def)

lemma process_vehicle_unclassified:
  "\<not> classify_ev e share (vid v) \<Longrightarrow> snd (process_vehicle e share bias sts a v) = a"
  by (simp add: process_vehicle_def Let_def)

lemma lookup_observe:
  "lookup_state e (observe e k evs) k = lookup_state e evs k"
  by (auto simp: lookup_state_def observe_def update_conv' split: option.splits)

lemma request_route_battery [simp]:
  "battery (request_route e bias k d) = battery d" "charging (request_route e bias k d) = charging d"
  by (auto simp: request_route_def split: option.splits)

lemma process_vehicle_classified:
  assumes c: "classify_ev e share (vid v)"
  shows "\<exists>d1 d2 cv' m.
     scan_stations (capture_radius bias) (v\<lparr>is_ev := True\<rparr>) d1 (acc_charging_vehicles a) sts
       = (d2, cv', m) \<and>
     battery d1 = battery (lookup_state e (acc_ev_vehicles a) (vid v)) \<and>
     charging d1 = charging (lookup_state e (acc_ev_vehicles a) (vid v)) \<and>
     map_of (acc_ev_vehicles (snd (process_vehicle e share bias sts a v))) =
       (map_of (acc_ev_vehicles a))(vid v \<mapsto> d2) \<and>
     acc_charging_vehicles (snd (process_vehicle e share bias sts a v)) = cv'"
proof -
  define d1 where "d1 = request_route e bias (vid v)
                     (lookup_state e (observe e (vid v) (acc_ev_vehicles a)) (vid v))"
  obtain d2 cv' m where sc:
    "scan_stations (capture_radius bias) (v\<lparr>is_ev := True\<rparr>) d1 (acc_charging_vehicles a) sts
       = (d2, cv', m)"
    by (metis prod_cases3)
  have d1b: "battery d1 = battery (lookup_state e (acc_ev_vehicles a) (vid v))"
    "charging d1 = charging (lookup_state e (acc_ev_vehicles a) (vid v))"
    by (simp_all add: d1_def lookup_observe)
  have res: "snd (process_vehicle e share bias sts a v) =
      a\<lparr>acc_ev_vehicles := AList.update (vid v) d2 (observe e (vid v) (acc_ev_vehicles a)),
        acc_charging_vehicles := cv',
        total_evs := Suc (total_evs a),
        charging_count := (if m then Suc (charging_count a) else charging_count a)\<rparr>"
    using c sc unfolding d1_def by (simp add: process_vehicle_def Let_def)
  have "map_of (AList.update (vid v) d2 (observe e (vid v) (acc_ev_vehicles a))) =
          (map_of (acc_ev_vehicles a))(vid v \<mapsto> d2)"
    by (auto simp: observe_def update_conv')
  then show ?thesis using sc d1b res by auto
qed

lemma step_summary:
  assumes c: "classify_ev e share (vid v)"
  shows "\<exists>d2 m.
     map_of (acc_ev_vehicles (snd (process_vehicle e share bias sts a v))) =
       (map_of (acc_ev_vehicles a))(vid v \<mapsto> d2) \<and>
     battery d2 = (if m then min 100 (battery (lookup_state e (acc_ev_vehicles a) (vid v)) + 0.5)
                   else battery (lookup_state e (acc_ev_vehicles a) (vid v))) \<and>
     charging d2 = (if m then battery d2 < 95
                    else charging (lookup_state e (acc_ev_vehicles a) (vid v))) \<and>
     (if m then speed v < 2 \<and>
         (\<exists>st \<in> set sts. at_station (capture_radius bias) v st \<and>
            int (length (occ a (sid st))) < capacity st \<and>
            (\<forall>s. occ (snd (process_vehicle e share bias sts a v)) s =
                   (if s = sid st then occ a s @ [vid v] else occ a s)))
      else (\<forall>s. occ (snd (process_vehicle e share bias sts a v)) s = occ a s))"
proof -
  from process_vehicle_classified [OF c, where bias = bias and a = a and sts = sts]
  obtain d1 d2 cv' m where
    sc: "scan_stations (capture_radius bias) (v\<lparr>is_ev := True\<rparr>) d1 (acc_charging_vehicles a) sts
       = (d2, cv', m)"
    and b: "battery d1 = battery (lookup_state e (acc_ev_vehicles a) (vid v))"
    and ch: "charging d1 = charging (lookup_state e (acc_ev_vehicles a) (vid v))"
    and mp: "map_of (acc_ev_vehicles (snd (process_vehicle e share bias sts a v))) =
       (map_of (acc_ev_vehicles a))(vid v \<mapsto> d2)"
    and cv: "acc_charging_vehicles (snd (process_vehicle e share bias sts a v)) = cv'"
    by blast
  from scan_result [OF sc] show ?thesis
  proof
    assume "\<not> m \<and> d2 = d1 \<and> (\<forall>s. occupants cv' s = occupants (acc_charging_vehicles a) s)"
    then show ?thesis using b ch mp cv
      by (intro exI [of _ d2] exI [of _ False]) (simp add: occ_def)
  next
    assume "m \<and> d2 = meter d1 \<and> speed (v\<lparr>is_ev := True\<rparr>) < 2 \<and>
      (\<exists>st \<in> set sts. at_station (capture_radius bias) (v\<lparr>is_ev := True\<rparr>) st \<and>
         int (length (occupants (acc_charging_vehicles a) (sid st))) < capacity st \<and>
         (\<forall>s. occupants cv' s =
                (if s = sid st then occupants (acc_charging_vehicles a) s @ [vid (v\<lparr>is_ev := True\<rparr>)]
                 else occupants (acc_charging_vehicles a) s)))"
    then show ?thesis using b ch mp cv
      by (intro exI [of _ d2] exI [of _ True])
         (auto simp: occ_def meter_battery meter_charging)
  qed
qed

lemma run_snapshot_Nil [simp]: "run_snapshot e share bias sts [] a = a"
  by (simp add: run_snapshot_def)

lemma run_snapshot_Cons [simp]:
  "run_snapshot e share bias sts (v # vs) a =
     run_snapshot e share bias sts vs (snd (process_vehicle e share bias sts a v))"
  unfolding run_snapshot_def by (rule for_each_Cons_snd)

lemma step_cases:
  obtains (skip) "\<not> classify_ev e share (vid v)" "snd (process_vehicle e share bias sts a v) = a"
  | (same) d2 where "classify_ev e share (vid v)"
      "map_of (acc_ev_vehicles (snd (process_vehicle e share bias sts a v))) =
         (map_of (acc_ev_vehicles a))(vid v \<mapsto> d2)"
      "battery d2 = battery (lookup_state e (acc_ev_vehicles a) (vid v))"
      "charging d2 = charging (lookup_state e (acc_ev_vehicles a) (vid v))"
      "\<forall>s. occ (snd (process_vehicle e share bias sts a v)) s = occ a s"
  | (metered) d2 st where "classify_ev e share (vid v)"
      "map_of (acc_ev_vehicles (snd (process_vehicle e share bias sts a v))) =
         (map_of (acc_ev_vehicles a))(vid v \<mapsto> d2)"
      "battery d2 = min 100 (battery (lookup_state e (acc_ev_vehicles a) (vid v)) + 0.5)"
      "charging d2 = (battery d2 < 95)"
      "speed v < 2" "st \<in> set sts" "at_station (capture_radius bias) v st"
      "int (length (occ a (sid st))) < capacity st"
      "\<forall>s. occ (snd (process_vehicle e share bias sts a v)) s =
             (if s = sid st then occ a s @ [vid v] else occ a s)"
proof (cases "classify_ev e share (vid v)")
  case False
  then show ?thesis using skip process_vehicle_unclassified by blast
next
  case True
  from step_summary [OF True, where bias = bias and a = a and sts = sts]
  obtain d2 m where
    mp: "map_of (acc_ev_vehicles (snd (process_vehicle e share bias sts a v))) =
       (map_of (acc_ev_vehicles a))(vid v \<mapsto> d2)"
    and b: "battery d2 = (if m then min 100 (battery (lookup_state e (acc_ev_vehicles a) (vid v)) + 0.5)
                   else battery (lookup_state e (acc_ev_vehicles a) (vid v)))"
    and ch: "charging d2 = (if m then battery d2 < 95
                    else charging (lookup_state e (acc_ev_vehicles a) (vid v)))"
    and oc: "(if m then speed v < 2 \<and>
         (\<exists>st \<in> set sts. at_station (capture_radius bias) v st \<and>
            int (length (occ a (sid st))) < capacity st \<and>
            (\<forall>s. occ (snd (process_vehicle e share bias sts a v)) s =
                   (if s = sid st then occ a s @ [vid v] else occ a s)))
      else (\<forall>s. occ (snd (process_vehicle e share bias sts a v)) s = occ a s))"
    by blast
  show ?thesis
  proof (cases m)
    case False
    then show ?thesis using same [OF True mp] b ch oc by simp
  next
    case m: True
    then obtain st where "st \<in> set sts" "at_station (capture_radius bias) v st"
      "int (length (occ a (sid st))) < capacity st"
      "\<forall>s. occ (snd (process_vehicle e share bias sts a v)) s =
             (if s = sid st then occ a s @ [vid v] else occ a s)"
      using oc by auto
    then show ?thesis using metered [OF True mp, of st] b ch oc m by simp
  qed
qed

lemma step_grow:
  "k \<in> set (occ a s) \<Longrightarrow> k \<in> set (occ (snd (process_vehicle e share bias sts a v)) s)"
  by (cases rule: step_cases [of e share v bias sts a]) auto

lemma step_origin:
  "k \<in> set (occ (snd (process_vehicle e share bias sts a v)) s) \<Longrightarrow> k \<in> set (occ a s) \<or> k = vid v"
  by (cases rule: step_cases [of e share v bias sts a]) (auto split: if_splits)

lemma step_frame:
  "k \<noteq> vid v \<Longrightarrow>
   map_of (acc_ev_vehicles (snd (process_vehicle e share bias sts a v))) k =
     map_of (acc_ev_vehicles a) k"
  by (cases rule: step_cases [of e share v bias sts a]) auto

lemma run_grow:
  "k \<in> set (occ a s) \<Longrightarrow> k \<in> set (occ (run_snapshot e share bias sts vs a) s)"
  by (induction vs arbitrary: a) (simp_all add: step_grow)

lemma run_origin:
  "k \<in> set (occ (run_snapshot e share bias sts vs a) s) \<Longrightarrow> k \<in> set (occ a s) \<or> k \<in> vid ` set vs"
proof (induction vs arbitrary: a)
  case Nil
  then show ?case by simp
next
  case (Cons v vs)
  then have "k \<in> set (occ (snd (process_vehicle e share bias sts a v)) s) \<or> k \<in> vid ` set vs"
    by simp
  then show ?case using step_origin [of k e share bias sts a v s] by auto
qed

lemma run_frame:
  "k \<notin> vid ` set vs \<Longrightarrow>
   map_of (acc_ev_vehicles (run_snapshot e share bias sts vs a)) k = map_of (acc_ev_vehicles a) k"
  by (induction vs arbitrary: a) (simp_all add: step_frame)

lemma step_cap_ok:
  assumes d: "distinct (map sid sts)" and ok: "cap_ok sts a"
  shows "cap_ok sts (snd (process_vehicle e share bias sts a v))"
proof (cases rule: step_cases [of e share v bias sts a])
  case skip
  then show ?thesis using ok by simp
next
  case (same d2)
  then show ?thesis using ok by (simp add: cap_ok_def)
next
  case (metered d2 st)
  have eq: "st' = st" if "st' \<in> set sts" "sid st' = sid st" for st'
    using that metered(6) d by (meson distinct_map inj_onD)
  show ?thesis
    unfolding cap_ok_def
  proof
    fix st' assume m: "st' \<in> set sts"
    show "int (length (occ (snd (process_vehicle e share bias sts a v)) (sid st'))) \<le> capacity st'"
    proof (cases "sid st' = sid st")
      case True
      then have "st' = st" using eq m by simp
      then show ?thesis using metered(8,9) by simp
    next
      case False
      then show ?thesis using metered(9) ok m by (simp add: cap_ok_def)
    qed
  qed
qed

lemma run_cap_ok:
  "distinct (map sid sts) \<Longrightarrow> cap_ok sts a \<Longrightarrow> cap_ok sts (run_snapshot e share bias sts vs a)"
  by (induction vs arbitrary: a) (simp_all add: step_cap_ok)

lemma lookup_state_cong:
  "map_of evs k = map_of evs' k \<Longrightarrow> lookup_state e evs k = lookup_state e evs' k"
  by (simp add: lookup_state_def)

lemma step_ev_ok:
  assumes draw: "20 \<le> uniform_20_80 e (vid v) \<and> uniform_20_80 e (vid v) \<le> 80"
    and ok: "ev_ok (acc_ev_vehicles a)"
  shows "ev_ok (acc_ev_vehicles (snd (process_vehicle e share bias sts a v)))"
proof -
  let ?p = "lookup_state e (acc_ev_vehicles a) (vid v)"
  have p: "0 \<le> battery ?p \<and> battery ?p \<le> 100 \<and> (charging ?p \<longrightarrow> battery ?p < 95)"
    using draw ok
    by (auto simp: lookup_state_def fresh_state_def ev_ok_def split: option.splits)
  show ?thesis
  proof (cases rule: step_cases [of e share v bias sts a])
    case skip
    then show ?thesis using ok by simp
  next
    case (same d2)
    then show ?thesis using ok p unfolding ev_ok_def by auto
  next
    case (metered d2 st)
    then show ?thesis using ok p unfolding ev_ok_def by auto
  qed
qed

lemma run_ev_ok:
  assumes "\<forall>k. 20 \<le> uniform_20_80 e k \<and> uniform_20_80 e k \<le> 80"
  shows "ev_ok (acc_ev_vehicles a) \<Longrightarrow> ev_ok (acc_ev_vehicles (run_snapshot e share bias sts vs a))"
  using assms by (induction vs arbitrary: a) (simp_all add: step_ev_ok)

lemma step_prefix:
  "\<exists>suf. occ (snd (process_vehicle e share bias sts a v)) s = occ a s @ suf"
  by (cases rule: step_cases [of e share v bias sts a]) auto

lemma run_prefix:
  "\<exists>suf. occ (run_snapshot e share bias sts vs a) s = occ a s @ suf"
proof (induction vs arbitrary: a)
  case Nil
  then show ?case by simp
next
  case (Cons v vs)
  obtain s1 where "occ (snd (process_vehicle e share bias sts a v)) s = occ a s @ s1"
    using step_prefix by blast
  moreover obtain s2 where
    "occ (run_snapshot e share bias sts vs (snd (process_vehicle e share bias sts a v))) s =
       occ (snd (process_vehicle e share bias sts a v)) s @ s2"
    using Cons.IH by blast
  ultimately show ?case by simp
qed

lemma run_vehicle:
  assumes "distinct (map vid vs)" "\<forall>w \<in> set vs. \<forall>s. vid w \<notin> set (occ a s)"
    "v \<in> set vs" "classify_ev e share (vid v)"
  shows "\<exists>d'. map_of (acc_ev_vehicles (run_snapshot e share bias sts vs a)) (vid v) = Some d' \<and>
     (if (\<exists>st \<in> set sts. vid v \<in> set (occ (run_snapshot e share bias sts vs a) (sid st)))
      then battery d' = min 100 (battery (lookup_state e (acc_ev_vehicles a) (vid v)) + 0.5) \<and>
           charging d' = (battery d' < 95) \<and> speed v < 2 \<and>
           (\<exists>st \<in> set sts. \<exists>pre post. at_station (capture_radius bias) v st \<and>
              occ (run_snapshot e share bias sts vs a) (sid st) = pre @ vid v # post \<and>
              int (length pre) < capacity st)
      else battery d' = battery (lookup_state e (acc_ev_vehicles a) (vid v)) \<and>
           charging d' = charging (lookup_state e (acc_ev_vehicles a) (vid v)))"
  using assms(1,2,3)
proof (induction vs arbitrary: a)
  case Nil
  then show ?case by simp
next
  case (Cons x xs)
  let ?a1 = "snd (process_vehicle e share bias sts a x)"
  let ?fin = "run_snapshot e share bias sts xs ?a1"
  have fin: "run_snapshot e share bias sts (x # xs) a = ?fin" by simp
  have nx: "vid x \<notin> vid ` set xs" and dxs: "distinct (map vid xs)"
    using Cons.prems(1) by auto
  show ?case
  proof (cases "vid v = vid x")
    case True
    then have vx: "v = x" using Cons.prems(3) nx by (metis image_eqI set_ConsD)
    have keep: "map_of (acc_ev_vehicles ?fin) (vid x) = map_of (acc_ev_vehicles ?a1) (vid x)"
      using nx by (rule run_frame)
    have fresh: "\<forall>s. vid x \<notin> set (occ a s)" using Cons.prems(2) by simp
    show ?thesis
    proof (cases rule: step_cases [of e share x bias sts a])
      case skip
      then show ?thesis using assms(4) vx by simp
    next
      case (same d2)
      have "vid x \<notin> set (occ ?fin s)" for s
        using run_origin [of "vid x" e share bias sts xs ?a1 s] same(5) fresh nx by auto
      then show ?thesis unfolding fin vx using keep same by auto
    next
      case (metered d2 st)
      have "vid x \<in> set (occ ?a1 (sid st))" using metered(9) by simp
      then have "vid x \<in> set (occ ?fin (sid st))" by (rule run_grow)
      then have ex': "\<exists>st \<in> set sts. vid x \<in> set (occ ?fin (sid st))"
        using metered(6) by blast
      obtain suf where "occ ?fin (sid st) = occ ?a1 (sid st) @ suf"
        using run_prefix by blast
      then have "occ ?fin (sid st) = occ a (sid st) @ vid x # suf"
        using metered(9) by simp
      then have ex: "\<exists>st \<in> set sts. \<exists>pre post. at_station (capture_radius bias) x st \<and>
              occ ?fin (sid st) = pre @ vid x # post \<and> int (length pre) < capacity st"
        using metered(6,7,8) by blast
      show ?thesis unfolding fin vx using keep metered(2,3,4,5) ex ex' by simp
    qed
  next
    case False
    then have vin: "v \<in> set xs" using Cons.prems(3) by auto
    have fresh1: "\<forall>w \<in> set xs. \<forall>s. vid w \<notin> set (occ ?a1 s)"
    proof (intro ballI allI)
      fix w s assume w: "w \<in> set xs"
      then have "vid w \<noteq> vid x" using nx by (metis image_eqI)
      moreover have "vid w \<notin> set (occ a s)" using Cons.prems(2) w by simp
      ultimately show "vid w \<notin> set (occ ?a1 s)"
        using step_origin [of "vid w" e share bias sts a x s] by blast
    qed
    have lk: "lookup_state e (acc_ev_vehicles ?a1) (vid v) = lookup_state e (acc_ev_vehicles a) (vid v)"
      using False by (intro lookup_state_cong step_frame)
    from Cons.IH [OF dxs fresh1 vin] show ?thesis unfolding fin lk .
  qed
qed

lemma process_ev_charging_unfold:
  "fst (process_ev_charging e net vs) =
     net\<lparr>stations := map (\<lambda>st. st\<lparr>vehicles_charging := occ (tick_acc e net vs) (sid st)\<rparr>)
                        (stations net),
         charging_vehicles := acc_charging_vehicles (tick_acc e net vs),
         ev_vehicles := acc_ev_vehicles (tick_acc e net vs)\<rparr>"
  by (simp add: process_ev_charging_def Let_def tick_acc_def initial_acc_def run_snapshot_def
      occ_def split: prod.splits)

lemma occ_initial [simp]: "occ (initial_acc net) s = []"
  by (simp add: occ_def initial_acc_def occupants_def)

lemma metered_after:
  "metered (fst (process_ev_charging e net vs)) k =
     (\<exists>st \<in> set (stations net). k \<in> set (occ (tick_acc e net vs) (sid st)))"
  by (simp add: metered_def process_ev_charging_unfold)

lemma tick_cap_ok:
  assumes "distinct (map sid (stations net))" "\<forall>st \<in> set (stations net). 0 \<le> capacity st"
  shows "cap_ok (stations net) (tick_acc e net vs)"
  unfolding tick_acc_def using assms by (intro run_cap_ok) (simp_all add: cap_ok_def)

lemma tick_stations_within:
  assumes "distinct (map sid (stations net))" "\<forall>st \<in> set (stations net). 0 \<le> capacity st"
  shows "\<forall>st \<in> set (stations (fst (process_ev_charging e net vs))).
           int (length (vehicles_charging st)) \<le> capacity st"
  using tick_cap_ok [OF assms, of e vs]
  by (auto simp: process_ev_charging_unfold cap_ok_def)

lemma tick_stations_static:
  "map sid (stations (fst (process_ev_charging e net vs))) = map sid (stations net)"
  "map capacity (stations (fst (process_ev_charging e net vs))) = map capacity (stations net)"
  by (simp_all add: process_ev_charging_unfold comp_def)

lemma tick_capacity_nonneg:
  assumes "\<forall>st \<in> set (stations net). 0 \<le> capacity st"
  shows "\<forall>st \<in> set (stations (fst (process_ev_charging e net vs))). 0 \<le> capacity st"
  using assms by (auto simp: process_ev_charging_unfold)

lemma run_ticks_within:
  assumes "distinct (map sid (stations net))" "\<forall>st \<in> set (stations net). 0 \<le> capacity st"
    "snaps \<noteq> []"
  shows "\<forall>st \<in> set (stations (run_ticks e net snaps)).
           int (length (vehicles_charging st)) \<le> capacity st"
  using assms
proof (induction snaps arbitrary: net)
  case Nil
  then show ?case by simp
next
  case (Cons vs rest)
  let ?n1 = "fst (process_ev_charging e net vs)"
  have d1: "distinct (map sid (stations ?n1))"
    using Cons.prems(1) by (simp add: tick_stations_static)
  have c1: "\<forall>st \<in> set (stations ?n1). 0 \<le> capacity st"
    using Cons.prems(2) by (rule tick_capacity_nonneg)
  show ?case
  proof (cases rest)
    case Nil
    then show ?thesis using tick_stations_within [OF Cons.prems(1,2), of e vs] by simp
  next
    case (Cons y ys)
    then show ?thesis using Cons.IH [OF d1 c1] by simp
  qed
qed

lemma scan_full:
  assumes "\<forall>st \<in> set sts. capacity st \<le> int (length (occupants cv (sid st)))"
  shows "fst (scan_stations r v d cv sts) = d \<and> \<not> snd (snd (scan_stations r v d cv sts))"
proof -
  obtain d' cv' m where sc: "scan_stations r v d cv sts = (d', cv', m)" by (metis prod_cases3)
  have "\<not> (\<exists>st \<in> set sts. int (length (occupants cv (sid st))) < capacity st)"
    using assms by (simp add: not_less)
  with scan_result [OF sc] have "\<not> m \<and> d' = d" by blast
  then show ?thesis using sc by simp
qed

lemma scan_admitted:
  assumes "scan_stations r v d cv sts = (d', cv', True)"
  shows "\<exists>st \<in> set sts. at_station r v st \<and> int (length (occupants cv (sid st))) < capacity st \<and>
           occupants cv' (sid st) = occupants cv (sid st) @ [vid v]"
  using scan_result [OF assms] by auto

text \<open>
  Claim C4. When the station ids are distinct and no capacity is negative, after every
  call of \<open>process_ev_charging\<close>, and so after every non-empty sequence of calls, no
  station's occupancy list holds more vehicles than the station's capacity. A vehicle is
  appended to a station's list only when the list is shorter than the capacity, and when
  every station's list has reached its capacity the scan appends the vehicle nowhere,
  wherever the vehicle is.
\<close>

theorem station_capacity_cap:
  assumes "distinct (map sid (stations net))" "\<forall>st \<in> set (stations net). 0 \<le> capacity st"
  shows "(\<forall>st \<in> set (stations (fst (process_ev_charging e net vs))).
            int (length (vehicles_charging st)) \<le> capacity st) \<and>
         (\<forall>snaps. snaps \<noteq> [] \<longrightarrow>
            (\<forall>st \<in> set (stations (run_ticks e net snaps)).
               int (length (vehicles_charging st)) \<le> capacity st)) \<and>
         (\<forall>r v d cv sts d' cv'. scan_stations r v d cv sts = (d', cv', True) \<longrightarrow>
            (\<exists>st \<in> set sts. at_station r v st \<and>
               int (length (occupants cv (sid st))) < capacity st \<and>
               occupants cv' (sid st) = occupants cv (sid st) @ [vid v])) \<and>
         (\<forall>r v d cv sts.
            (\<forall>st \<in> set sts. capacity st \<le> int (length (occupants cv (sid st)))) \<longrightarrow>
            \<not> snd (snd (scan_stations r v d cv sts)))"
proof (intro conjI allI impI)
  show "\<forall>st \<in> set (stations (fst (process_ev_charging e net vs))).
            int (length (vehicles_charging st)) \<le> capacity st"
    by (rule tick_stations_within [OF assms])
next
  fix snaps :: "vehicle list list" assume "snaps \<noteq> []"
  then show "\<forall>st \<in> set (stations (run_ticks e net snaps)).
               int (length (vehicles_charging st)) \<le> capacity st"
    by (rule run_ticks_within [OF assms])
next
  fix r v d cv sts d' cv'
  assume "scan_stations r v d cv sts = (d', cv', True)"
  then show "\<exists>st \<in> set sts. at_station r v st \<and>
               int (length (occupants cv (sid st))) < capacity st \<and>
               occupants cv' (sid st) = occupants cv (sid st) @ [vid v]"
    by (rule scan_admitted)
next
  fix r v d cv and sts :: "station list"
  assume "\<forall>st \<in> set sts. capacity st \<le> int (length (occupants cv (sid st)))"
  then show "\<not> snd (snd (scan_stations r v d cv sts))"
    using scan_full by blast
qed

lemma tick_ev_ok:
  assumes "\<forall>k. 20 \<le> uniform_20_80 e k \<and> uniform_20_80 e k \<le> 80" "ev_ok (ev_vehicles net)"
  shows "ev_ok (ev_vehicles (fst (process_ev_charging e net vs)))"
  using run_ev_ok [OF assms(1), of "initial_acc net"] assms(2)
  by (simp add: process_ev_charging_unfold tick_acc_def initial_acc_def)

lemma run_ticks_ev_ok:
  assumes "\<forall>k. 20 \<le> uniform_20_80 e k \<and> uniform_20_80 e k \<le> 80"
  shows "ev_ok (ev_vehicles net) \<Longrightarrow> ev_ok (ev_vehicles (run_ticks e net snaps))"
  by (induction snaps arbitrary: net) (simp_all add: tick_ev_ok [OF assms])

lemma tick_vehicle:
  assumes "distinct (map vid vs)" "v \<in> set vs"
    "classify_ev e (clamp_percent (ev_share_percent net)) (vid v)"
  shows "\<exists>d'. ev_state (fst (process_ev_charging e net vs)) (vid v) = Some d' \<and>
     (if metered (fst (process_ev_charging e net vs)) (vid v)
      then battery d' = min 100 (battery (lookup_state e (ev_vehicles net) (vid v)) + 0.5) \<and>
           charging d' = (battery d' < 95) \<and> speed v < 2 \<and>
           (\<exists>st \<in> set (stations net). \<exists>pre post.
              at_station (capture_radius (clamp_percent (ev_charging_bias_percent net))) v st \<and>
              occupants (charging_vehicles (fst (process_ev_charging e net vs))) (sid st) =
                pre @ vid v # post \<and>
              int (length pre) < capacity st)
      else battery d' = battery (lookup_state e (ev_vehicles net) (vid v)) \<and>
           charging d' = charging (lookup_state e (ev_vehicles net) (vid v)))"
proof -
  have fresh: "\<forall>w \<in> set vs. \<forall>s. vid w \<notin> set (occ (initial_acc net) s)" by simp
  have ev0: "acc_ev_vehicles (initial_acc net) = ev_vehicles net" by (simp add: initial_acc_def)
  have s: "ev_state (fst (process_ev_charging e net vs)) k =
             map_of (acc_ev_vehicles (tick_acc e net vs)) k" for k
    by (simp add: ev_state_def process_ev_charging_unfold)
  have c: "occupants (charging_vehicles (fst (process_ev_charging e net vs))) k =
             occ (tick_acc e net vs) k" for k
    by (simp add: process_ev_charging_unfold occ_def)
  note rv = run_vehicle [OF assms(1) fresh assms(2,3),
      where bias = "clamp_percent (ev_charging_bias_percent net)" and sts = "stations net"]
  show ?thesis
    using rv unfolding metered_after s c tick_acc_def ev0 .
qed

lemma tick_frame:
  "k \<notin> vid ` set vs \<Longrightarrow> ev_state (fst (process_ev_charging e net vs)) k = ev_state net k"
  using run_frame [of k vs e _ _ _ "initial_acc net"]
  by (simp add: ev_state_def process_ev_charging_unfold tick_acc_def initial_acc_def)

text \<open>
  Claim C3. Let the first-sighting draws lie in \<open>[20, 80]\<close>, let every tracked battery
  be in \<open>[0, 100]\<close> with no state flagged charging at 95 or more, and let the vehicle ids
  of the snapshot be distinct. Then after the tick, and after any sequence of ticks, every
  tracked battery is in \<open>[0, 100]\<close> and no state flagged charging has a battery of 95 or
  more. A vehicle absent from the snapshot keeps its state. An electric vehicle of the
  snapshot that is metered (appended to a station's list) has its battery raised by
  exactly 0.5, capped at 100, its charging flag is true exactly if the new battery is
  below 95, it moves slower than 2.0, and it is within the capture radius of a station
  whose list held fewer vehicles than its capacity when the vehicle was appended. An
  electric vehicle that is not metered keeps its battery and its charging flag.
\<close>

theorem ev_charging_tick:
  assumes "\<forall>k. 20 \<le> uniform_20_80 e k \<and> uniform_20_80 e k \<le> 80" "ev_ok (ev_vehicles net)"
    "distinct (map vid vs)"
  shows "ev_ok (ev_vehicles (fst (process_ev_charging e net vs))) \<and>
    (\<forall>snaps. ev_ok (ev_vehicles (run_ticks e net snaps))) \<and>
    (\<forall>k. k \<notin> vid ` set vs \<longrightarrow> ev_state (fst (process_ev_charging e net vs)) k = ev_state net k) \<and>
    (\<forall>v \<in> set vs. classify_ev e (clamp_percent (ev_share_percent net)) (vid v) \<longrightarrow>
      (\<exists>d'. ev_state (fst (process_ev_charging e net vs)) (vid v) = Some d' \<and>
        (if metered (fst (process_ev_charging e net vs)) (vid v)
         then battery d' = min 100 (battery (lookup_state e (ev_vehicles net) (vid v)) + 0.5) \<and>
              charging d' = (battery d' < 95) \<and> speed v < 2 \<and>
              (\<exists>st \<in> set (stations net). \<exists>pre post.
                 at_station (capture_radius (clamp_percent (ev_charging_bias_percent net))) v st \<and>
                 occupants (charging_vehicles (fst (process_ev_charging e net vs))) (sid st) =
                   pre @ vid v # post \<and>
                 int (length pre) < capacity st)
         else battery d' = battery (lookup_state e (ev_vehicles net) (vid v)) \<and>
              charging d' = charging (lookup_state e (ev_vehicles net) (vid v)))))"
proof (intro conjI allI ballI impI)
  show "ev_ok (ev_vehicles (fst (process_ev_charging e net vs)))"
    by (rule tick_ev_ok [OF assms(1,2)])
next
  fix snaps show "ev_ok (ev_vehicles (run_ticks e net snaps))"
    by (rule run_ticks_ev_ok [OF assms(1,2)])
next
  fix k assume "k \<notin> vid ` set vs"
  then show "ev_state (fst (process_ev_charging e net vs)) k = ev_state net k"
    by (rule tick_frame)
next
  fix v assume "v \<in> set vs" "classify_ev e (clamp_percent (ev_share_percent net)) (vid v)"
  then show "\<exists>d'. ev_state (fst (process_ev_charging e net vs)) (vid v) = Some d' \<and>
        (if metered (fst (process_ev_charging e net vs)) (vid v)
         then battery d' = min 100 (battery (lookup_state e (ev_vehicles net) (vid v)) + 0.5) \<and>
              charging d' = (battery d' < 95) \<and> speed v < 2 \<and>
              (\<exists>st \<in> set (stations net). \<exists>pre post.
                 at_station (capture_radius (clamp_percent (ev_charging_bias_percent net))) v st \<and>
                 occupants (charging_vehicles (fst (process_ev_charging e net vs))) (sid st) =
                   pre @ vid v # post \<and>
                 int (length pre) < capacity st)
         else battery d' = battery (lookup_state e (ev_vehicles net) (vid v)) \<and>
              charging d' = charging (lookup_state e (ev_vehicles net) (vid v)))"
    by (rule tick_vehicle [OF assms(3)])
qed

lemmas ev_eval_defs = process_ev_charging_def Let_def process_vehicle_def
  classify_ev_def example_env_def clamp_percent_def empty_coordinator_def parked_vehicle_def
  example_station_def capture_radius_def needs_charging_def occupants_def meter_def
  observe_def lookup_state_def request_route_def fresh_state_def at_station_def ensure_entry_def
  busy_coordinator_def two_vehicles_def

lemma busy_tick:
  "fst (process_ev_charging example_env busy_coordinator two_vehicles) =
     \<lparr>stations = [example_station\<lparr>vehicles_charging := [''veh_0'']\<rparr>],
      charging_vehicles = [(''ev_station_0'', [''veh_0''])],
      ev_vehicles = [(''veh_0'', \<lparr>battery = 95.3, charging = False, target_station = None\<rparr>),
                     (''veh_1'', \<lparr>battery = 60, charging = False, target_station = None\<rparr>)],
      ev_share_percent = 30, ev_charging_bias_percent = 30\<rparr>"
  by (simp add: ev_eval_defs)

theorem station_capacity_cap_witness:
  "distinct (map sid (stations busy_coordinator)) \<and>
   list_all (\<lambda>st. 0 \<le> capacity st) (stations busy_coordinator) \<and>
   map capacity (stations busy_coordinator) = [1] \<and>
   map vehicles_charging
     (stations (fst (process_ev_charging example_env busy_coordinator two_vehicles))) =
     [[''veh_0'']] \<and>
   list_all (\<lambda>st. int (length (vehicles_charging st)) \<le> capacity st)
     (stations (fst (process_ev_charging example_env busy_coordinator two_vehicles)))"
proof -
  have h1: "distinct (map sid (stations busy_coordinator))"
    by (simp add: busy_coordinator_def empty_coordinator_def)
  have h2: "\<forall>st \<in> set (stations busy_coordinator). 0 \<le> capacity st"
    by (simp add: busy_coordinator_def empty_coordinator_def example_station_def)
  from station_capacity_cap [OF h1 h2, of example_env two_vehicles]
  have "\<forall>st \<in> set (stations (fst (process_ev_charging example_env busy_coordinator two_vehicles))).
          int (length (vehicles_charging st)) \<le> capacity st"
    by blast
  then have "list_all (\<lambda>st. int (length (vehicles_charging st)) \<le> capacity st)
     (stations (fst (process_ev_charging example_env busy_coordinator two_vehicles)))"
    by (simp add: list_all_iff)
  moreover have "map capacity (stations busy_coordinator) = [1]"
    by (simp add: busy_coordinator_def empty_coordinator_def example_station_def)
  moreover have "map vehicles_charging
     (stations (fst (process_ev_charging example_env busy_coordinator two_vehicles))) =
     [[''veh_0'']]"
    by (simp add: busy_tick)
  ultimately show ?thesis using h1 h2 by (simp add: list_all_iff)
qed

theorem ev_charging_tick_witness:
  "(\<forall>k. 20 \<le> uniform_20_80 example_env k \<and> uniform_20_80 example_env k \<le> 80) \<and>
   ev_ok (ev_vehicles busy_coordinator) \<and> distinct (map vid two_vehicles) \<and>
   classify_ev example_env (clamp_percent (ev_share_percent busy_coordinator)) ''veh_0'' \<and>
   ev_state busy_coordinator ''veh_0'' =
     Some \<lparr>battery = 94.8, charging = False, target_station = None\<rparr> \<and>
   metered (fst (process_ev_charging example_env busy_coordinator two_vehicles)) ''veh_0'' \<and>
   \<not> metered (fst (process_ev_charging example_env busy_coordinator two_vehicles)) ''veh_1'' \<and>
   ev_state (fst (process_ev_charging example_env busy_coordinator two_vehicles)) ''veh_0'' =
     Some \<lparr>battery = 95.3, charging = False, target_station = None\<rparr> \<and>
   ev_state (fst (process_ev_charging example_env busy_coordinator two_vehicles)) ''veh_1'' =
     Some \<lparr>battery = 60, charging = False, target_station = None\<rparr> \<and>
   ev_ok (ev_vehicles (fst (process_ev_charging example_env busy_coordinator two_vehicles)))"
proof -
  have h1: "\<forall>k. 20 \<le> uniform_20_80 example_env k \<and> uniform_20_80 example_env k \<le> 80"
    by (simp add: example_env_def)
  have h2: "ev_ok (ev_vehicles busy_coordinator)"
    by (simp add: ev_ok_def busy_coordinator_def empty_coordinator_def)
  have h3: "distinct (map vid two_vehicles)"
    by (simp add: two_vehicles_def parked_vehicle_def)
  have c: "classify_ev example_env (clamp_percent (ev_share_percent busy_coordinator)) ''veh_0''"
    by (simp add: classify_ev_def example_env_def clamp_percent_def busy_coordinator_def
        empty_coordinator_def)
  have s0: "ev_state busy_coordinator ''veh_0'' =
     Some \<lparr>battery = 94.8, charging = False, target_station = None\<rparr>"
    by (simp add: ev_state_def busy_coordinator_def empty_coordinator_def)
  have m0: "metered (fst (process_ev_charging example_env busy_coordinator two_vehicles)) ''veh_0''"
    and m1: "\<not> metered (fst (process_ev_charging example_env busy_coordinator two_vehicles)) ''veh_1''"
    by (simp_all add: metered_def busy_tick)
  have s1: "ev_state (fst (process_ev_charging example_env busy_coordinator two_vehicles)) ''veh_0'' =
     Some \<lparr>battery = 95.3, charging = False, target_station = None\<rparr>"
    and s2: "ev_state (fst (process_ev_charging example_env busy_coordinator two_vehicles)) ''veh_1'' =
     Some \<lparr>battery = 60, charging = False, target_station = None\<rparr>"
    by (simp_all add: ev_state_def busy_tick)
  from ev_charging_tick [OF h1 h2 h3]
  have "ev_ok (ev_vehicles (fst (process_ev_charging example_env busy_coordinator two_vehicles)))"
    by blast
  with h1 h2 h3 c s0 m0 m1 s1 s2 show ?thesis by blast
qed

subsection \<open>Economic dispatch\<close>

lemma for_each_Cons_fst:
  "fst (for_each f (x # xs) s) = fst (f s x) # fst (for_each f xs (snd (f s x)))"
  by (simp split: prod.splits)


lemma for_each_pointwise:
  assumes "\<And>s x. x \<in> set xs \<Longrightarrow> R (fst (f s x))"
  shows "\<forall>y \<in> set (fst (for_each f xs s)). R y"
  using assms
proof (induction xs arbitrary: s)
  case Nil
  then show ?case by simp
next
  case (Cons x xs)
  have "R (fst (f s x))" using Cons.prems by simp
  moreover have "\<forall>y \<in> set (fst (for_each f xs (snd (f s x)))). R y"
    using Cons.IH Cons.prems by simp
  ultimately show ?case by (simp add: for_each_Cons_fst del: for_each.simps(2))
qed


lemma renewable_step_static:
  "gname (fst (renewable_step hour acc g)) = gname g"
  "gtype (fst (renewable_step hour acc g)) = gtype g"
  "capacity_mw (fst (renewable_step hour acc g)) = capacity_mw g"
  "min_mw (fst (renewable_step hour acc g)) = min_mw g"
  "cost_per_mwh (fst (renewable_step hour acc g)) = cost_per_mwh g"
  "must_run (fst (renewable_step hour acc g)) = must_run g"
  "energy_capacity_mwh (fst (renewable_step hour acc g)) = energy_capacity_mwh g"
  by (simp_all add: renewable_step_def Let_def split: prod.splits)

lemma thermal_step_static:
  "gname (fst (thermal_step acc g)) = gname g"
  "gtype (fst (thermal_step acc g)) = gtype g"
  "capacity_mw (fst (thermal_step acc g)) = capacity_mw g"
  "min_mw (fst (thermal_step acc g)) = min_mw g"
  "cost_per_mwh (fst (thermal_step acc g)) = cost_per_mwh g"
  "must_run (fst (thermal_step acc g)) = must_run g"
  "energy_capacity_mwh (fst (thermal_step acc g)) = energy_capacity_mwh g"
  by (simp_all add: thermal_step_def Let_def split: prod.splits)













lemma well_formed_renewable_step [simp]:
  "well_formed (fst (renewable_step hour a g)) = well_formed g"
  by (simp add: well_formed_def is_thermal_def renewable_step_static)

lemma well_formed_thermal_step [simp]:
  "well_formed (fst (thermal_step a g)) = well_formed g"
  by (simp add: well_formed_def is_thermal_def thermal_step_static)











lemmas dispatch_eval_defs = economic_dispatch_def merit_order_passes_def sorted_gens_def
  in_dict_order_def renewable_step_def thermal_step_def battery_step_def is_renewable_def
  is_thermal_def thermal_unit_def solar_unit_def grid_of_def Let_def


lemma repo_example_dispatch:
  "map (\<lambda>g. (gname g, current_output g)) (generators (economic_dispatch 0 repo_example)) =
     [(''GEN_East_River_GT1'', 0), (''GEN_Hudson_CC1'', 400)]"
  by (simp add: repo_example_def dispatch_eval_defs)



end
